theory Spec2Isabelle
  imports
    Complex_Main
    "HOL-Library.Word"
    "HOL-Library.Signed_Division"
    "HOL-Library.Log_Nat"
begin

section \<open>Machine integers of wlg.c\<close>

text \<open>
  The program is written for Linux on an LP64 machine: \<open>uint8_t\<close> and \<open>uint32_t\<close> are
  unsigned words of 8 and 32 bits, \<open>time_t\<close> and \<open>long\<close> (the two fields of
  \<open>struct timespec\<close>) are signed 64-bit integers. A signed value is kept as a \<open>64 word\<close>
  and read through \<open>sint\<close>; signed addition and subtraction are two's complement
  (they wrap, as the machine does). The operators \<open>/\<close> and \<open>%\<close> of C on signed
  operands truncate towards zero: they are \<open>sdiv\<close> and \<open>smod\<close> on the signed readings.
\<close>

type_synonym u8 = "8 word"
type_synonym u32 = "32 word"
type_synonym s64 = "64 word"

definition sdiv64 :: "s64 \<Rightarrow> s64 \<Rightarrow> s64" where
  "sdiv64 a b = word_of_int (sint a sdiv sint b)"

definition smod64 :: "s64 \<Rightarrow> s64 \<Rightarrow> s64" where
  "smod64 a b = word_of_int (sint a smod sint b)"

section \<open>Time management utilities\<close>

record timespec =
  tv_sec :: s64
  tv_nsec :: s64

definition US_TO_NS :: int where "US_TO_NS = 1000"
definition S_TO_MS :: int where "S_TO_MS = 1000"
definition MS_TO_NS :: int where "MS_TO_NS = 1000000"
definition S_TO_US :: int where "S_TO_US = 1000000"
definition S_TO_NS :: int where "S_TO_NS = 1000000000"

text \<open>
  \<open>timespec_add_ms\<close>, \<open>timespec_add_us\<close>, \<open>timespec_add_ns\<close>: the amount is a
  \<open>uint32_t\<close>, so the split into whole seconds and the rest, and the product with the
  unit, are computed on 32 bits; the product is then widened (zero extended) to
  \<open>long\<close> and added to \<open>tv_nsec\<close>.
\<close>

definition timespec_add_ms :: "timespec \<Rightarrow> u32 \<Rightarrow> timespec" where
  "timespec_add_ms ts ms0 =
     (let sec = ms0 div word_of_int S_TO_MS;
          ms = ms0 - sec * word_of_int S_TO_MS;
          nsec = tv_nsec ts + ucast (ms * word_of_int MS_TO_NS)
      in \<lparr>tv_sec = tv_sec ts + (sdiv64 nsec (word_of_int S_TO_NS) + ucast sec),
          tv_nsec = smod64 nsec (word_of_int S_TO_NS)\<rparr>)"

definition timespec_add_us :: "timespec \<Rightarrow> u32 \<Rightarrow> timespec" where
  "timespec_add_us ts us0 =
     (let sec = us0 div word_of_int S_TO_US;
          us = us0 - sec * word_of_int S_TO_US;
          nsec = tv_nsec ts + ucast (us * word_of_int US_TO_NS)
      in \<lparr>tv_sec = tv_sec ts + (sdiv64 nsec (word_of_int S_TO_NS) + ucast sec),
          tv_nsec = smod64 nsec (word_of_int S_TO_NS)\<rparr>)"

definition timespec_add_ns :: "timespec \<Rightarrow> u32 \<Rightarrow> timespec" where
  "timespec_add_ns ts ns0 =
     (let sec = ns0 div word_of_int S_TO_NS;
          ns = ns0 - sec * word_of_int S_TO_NS;
          nsec = tv_nsec ts + ucast ns
      in \<lparr>tv_sec = tv_sec ts + (sdiv64 nsec (word_of_int S_TO_NS) + ucast sec),
          tv_nsec = smod64 nsec (word_of_int S_TO_NS)\<rparr>)"

text \<open>\<open>timespec_older a b\<close>: "not null if a is older than b, i.e. a > b". The result is a C \<open>int\<close>.\<close>

definition timespec_older :: "timespec \<Rightarrow> timespec \<Rightarrow> int" where
  "timespec_older a b =
     (if sint (tv_sec a) > sint (tv_sec b) then 1
      else if sint (tv_sec a) < sint (tv_sec b) then 0
      else if sint (tv_nsec a) \<ge> sint (tv_nsec b) then 1
      else 0)"

text \<open>\<open>timespec_subtract a b\<close> computes \<open>a = a - b\<close>; the model returns the new \<open>a\<close>.\<close>

definition timespec_subtract :: "timespec \<Rightarrow> timespec \<Rightarrow> timespec" where
  "timespec_subtract a b =
     (let a1 = a\<lparr>tv_nsec := tv_nsec a - tv_nsec b\<rparr>;
          a2 = (if sint (tv_nsec a1) < 0
                then a1\<lparr>tv_nsec := tv_nsec a1 + word_of_int S_TO_NS, tv_sec := tv_sec a1 - 1\<rparr>
                else a1)
      in a2\<lparr>tv_sec := tv_sec a2 - tv_sec b\<rparr>)"

text \<open>A timespec is normalized when its nanoseconds lie in \<open>[0, 1e9)\<close>.\<close>

definition normalized :: "timespec \<Rightarrow> bool" where
  "normalized ts = (0 \<le> sint (tv_nsec ts) \<and> sint (tv_nsec ts) < S_TO_NS)"


section \<open>Floating point\<close>

text \<open>
  \<open>normal_random\<close> and \<open>worker_periodic\<close> compute in \<open>float\<close> and \<open>double\<close>. A finite
  floating-point value is kept as the rational number it denotes, and every conversion and
  operation rounds the exact result to the nearest value with \<open>p\<close> significant bits, ties to
  the even significand (IEEE 754 round-to-nearest-even, the default mode): \<open>p = 24\<close> for
  \<open>float\<close> and \<open>p = 53\<close> for \<open>double\<close>. The exponent is not bounded: every value the
  program computes here is \<open>0\<close> or lies between \<open>2 ^ -31\<close> and \<open>2 ^ 63\<close>, far inside
  the normal range of both formats.
\<close>

text \<open>\<open>ilog2 x\<close> is the binary exponent of \<open>x > 0\<close>: \<open>2 ^ ilog2 x \<le> x < 2 ^ (ilog2 x + 1)\<close>.\<close>

definition ilog2 :: "rat \<Rightarrow> int" where
  "ilog2 x = (let (a, b) = quotient_of x; k = bitlen a - bitlen b
              in if 2 powi k \<le> x then k else k - 1)"

text \<open>Rounding to the nearest integer, a tie to the even one.\<close>

definition round_even :: "rat \<Rightarrow> int" where
  "round_even m = (let f = \<lfloor>m\<rfloor>; d = m - of_int f
                   in if d < 1 / 2 then f
                      else if 1 / 2 < d then f + 1
                      else if even f then f else f + 1)"

text \<open>\<open>rne p x\<close>: \<open>x\<close> rounded to \<open>p\<close> significant bits; \<open>u\<close> is the unit in the last place.\<close>

definition rne :: "nat \<Rightarrow> rat \<Rightarrow> rat" where
  "rne p x = (if x = 0 then 0
              else let a = \<bar>x\<bar>; u = 2 powi (ilog2 a - int p + 1)
                   in sgn x * (of_int (round_even (a / u)) * u))"

definition c_float :: "rat \<Rightarrow> rat" where "c_float x = rne 24 x"
definition c_double :: "rat \<Rightarrow> rat" where "c_double x = rne 53 x"

definition rat_of_u32 :: "u32 \<Rightarrow> rat" where
  "rat_of_u32 w = of_int (uint w)"

definition rat_of_long :: "s64 \<Rightarrow> rat" where
  "rat_of_long w = of_int (sint w)"

text \<open>
  The conversion of a floating value to \<open>uint32_t\<close> truncates towards zero; the behaviour is
  undefined (\<open>None\<close>) when the truncated value is not in \<open>[0, 2 ^ 32)\<close>.
\<close>

definition trunc :: "rat \<Rightarrow> int" where
  "trunc x = (if 0 \<le> x then \<lfloor>x\<rfloor> else \<lceil>x\<rceil>)"

definition to_uint32 :: "rat \<Rightarrow> u32 option" where
  "to_uint32 x = (let t = trunc x in if 0 \<le> t \<and> t < 4294967296 then Some (word_of_int t) else None)"

section \<open>Workers definition\<close>

text \<open>\<open>RAND_MAX\<close> of the C library of Linux (glibc): \<open>random()\<close> returns a \<open>long\<close> in \<open>[0, RAND_MAX]\<close>.\<close>

definition RAND_MAX :: int where "RAND_MAX = 2147483647"

text \<open>
  \<open>normal_random max_value\<close>, given the value \<open>r\<close> that \<open>random()\<close> returns:
  \<^verbatim>\<open>double value = max_value; value *= random(); value /= RAND_MAX; return value;\<close>
\<close>

definition normal_random :: "u32 \<Rightarrow> s64 \<Rightarrow> u32 option" where
  "normal_random max_value r =
     (let v0 = c_double (rat_of_u32 max_value);
          v1 = c_double (v0 * c_double (rat_of_long r));
          v2 = c_double (v1 / c_double (of_int RAND_MAX))
      in to_uint32 v2)"

text \<open>
  The two times of \<open>worker_periodic\<close>:
  \<^verbatim>\<open>process = ( (float) duration * ( (float) duty_cycle / 100.0) );\<close>
  \<^verbatim>\<open>sleep   = duration - process;\<close>
  \<open>100.0\<close> is a \<open>double\<close>, so the quotient and the product are computed in \<open>double\<close>; the
  product is converted to \<open>uint32_t\<close>, and the subtraction is unsigned (it wraps).
\<close>

definition periodic_process :: "u32 \<Rightarrow> u32 \<Rightarrow> u32 option" where
  "periodic_process duration duty_cycle =
     to_uint32 (c_double (c_float (rat_of_u32 duration) *
                          c_double (c_float (rat_of_u32 duty_cycle) / 100)))"

definition periodic_times :: "u32 \<Rightarrow> u32 \<Rightarrow> (u32 \<times> u32) option" where
  "periodic_times duration duty_cycle =
     (case periodic_process duration duty_cycle of
        None \<Rightarrow> None
      | Some process \<Rightarrow> Some (duration - process, process))"


subsection \<open>Worker data and the world a worker thread runs in\<close>

datatype worker_kind = WORKER_BATCH | WORKER_INTERACTIVE | WORKER_PERIODC | WORKER_YIELD

text \<open>
  The union \<open>params\<close> of \<open>struct wdata\<close>. \<open>main\<close> writes the member that belongs to the
  kind of the worker and nothing for a batch worker (\<open>Unset\<close>: the memory comes from
  \<open>malloc\<close> and holds no determined value). The three members lie over the same two
  words, which \<open>words\<close> reads whatever member has been written.
\<close>

datatype params =
    Unset
  | Interrupt (interval_max: u32) (duration_max: u32)
  | Period (duration: u32) (duty_cycle: u32)
  | Yield (period: u32) (interval: u32)

fun words :: "params \<Rightarrow> (u32 \<times> u32) option" where
  "words Unset = None"
| "words (Interrupt a b) = Some (a, b)"
| "words (Period a b) = Some (a, b)"
| "words (Yield a b) = Some (a, b)"

record wdata =
  wid :: u8
  pid :: u32
  kind :: worker_kind
  params :: params

text \<open>
  What a worker thread does to the outside is a trace of events. What it reads from the
  outside are the successive samples of \<open>CLOCK_MONOTONIC_RAW\<close> and the successive values of
  \<open>random()\<close>; both are lists, and a worker that needs a sample beyond the end of its list
  has not returned within the observed run (\<open>Out_of_samples\<close>). \<open>start_ts\<close> is the global
  variable in which \<open>main\<close> records the instant of the broadcast.
\<close>

datatype event = Sync_start | Usleep u32 | Busy_loop | Pthread_yield

datatype fault = Out_of_samples | Undefined_behaviour

record world =
  start_ts :: timespec
  clock :: "timespec list"
  rnd :: "s64 list"
  trace :: "event list"

definition emit :: "event list \<Rightarrow> world \<Rightarrow> world" where
  "emit es w = w\<lparr>trace := trace w @ es\<rparr>"

text \<open>
  The polling loop of the workers:
  \<^verbatim>\<open>while (1) { clock_gettime(.., &now_ts); if (timespec_older(&now_ts, &end_ts)) break; busy_loop(); }\<close>
  It returns the number of calls of \<open>busy_loop\<close> and the samples that are left.
\<close>

fun poll_spin :: "timespec \<Rightarrow> timespec list \<Rightarrow> (nat \<times> timespec list) option" where
  "poll_spin end_ts [] = None"
| "poll_spin end_ts (now_ts # rest) =
     (if timespec_older now_ts end_ts \<noteq> 0 then Some (0, rest)
      else map_option (\<lambda>(n, c). (Suc n, c)) (poll_spin end_ts rest))"

text \<open>
  "Configure processing end" and poll: \<open>clock_gettime(.., &end_ts); timespec_add_us(&end_ts, process);\<close>
  followed by the polling loop. The three timed workers share these lines.
\<close>

definition process_for :: "u32 \<Rightarrow> world \<Rightarrow> fault + world" where
  "process_for process w =
     (case clock w of
        [] \<Rightarrow> Inl Out_of_samples
      | t # rest \<Rightarrow>
          (case poll_spin (timespec_add_us t process) rest of
             None \<Rightarrow> Inl Out_of_samples
           | Some (n, c) \<Rightarrow> Inr (emit (replicate n Busy_loop) (w\<lparr>clock := c\<rparr>))))"

definition worker_batch :: "wdata \<Rightarrow> world \<Rightarrow> fault + world" where
  "worker_batch wd w = Inr (emit [Busy_loop] w)"

definition worker_interactive :: "wdata \<Rightarrow> world \<Rightarrow> fault + world" where
  "worker_interactive wd w =
     (case words (params wd) of
        None \<Rightarrow> Inl Undefined_behaviour
      | Some (imax, dmax) \<Rightarrow>
          (case rnd w of
             [] \<Rightarrow> Inl Out_of_samples
           | r1 # rs1 \<Rightarrow>
               (case normal_random imax r1 of
                  None \<Rightarrow> Inl Undefined_behaviour
                | Some delay \<Rightarrow>
                    (case rs1 of
                       [] \<Rightarrow> Inl Out_of_samples
                     | r2 # rs \<Rightarrow>
                         (case normal_random dmax r2 of
                            None \<Rightarrow> Inl Undefined_behaviour
                          | Some process \<Rightarrow>
                              process_for process (emit [Usleep delay] (w\<lparr>rnd := rs\<rparr>)))))))"

definition worker_periodic :: "wdata \<Rightarrow> world \<Rightarrow> fault + world" where
  "worker_periodic wd w =
     (case words (params wd) of
        None \<Rightarrow> Inl Undefined_behaviour
      | Some (dur, duty) \<Rightarrow>
          (case periodic_times dur duty of
             None \<Rightarrow> Inl Undefined_behaviour
           | Some (sleep, process) \<Rightarrow> process_for process (emit [Usleep sleep] w)))"

text \<open>
  The yield period of \<open>worker_yield\<close>: the loop leaves at the first sample at or after
  \<open>end_ts\<close>, and yields (moving \<open>yield_ts\<close> on by the interval) at every sample at or after
  \<open>yield_ts\<close>. It returns the number of calls of \<open>pthread_yield\<close>.
\<close>

fun yield_loop :: "timespec \<Rightarrow> u32 \<Rightarrow> timespec \<Rightarrow> timespec list \<Rightarrow> (nat \<times> timespec list) option" where
  "yield_loop end_ts itv yield_ts [] = None"
| "yield_loop end_ts itv yield_ts (now_ts # rest) =
     (if timespec_older now_ts end_ts \<noteq> 0 then Some (0, rest)
      else if timespec_older now_ts yield_ts \<noteq> 0
      then map_option (\<lambda>(n, c). (Suc n, c)) (yield_loop end_ts itv (timespec_add_us yield_ts itv) rest)
      else yield_loop end_ts itv yield_ts rest)"

definition worker_yield :: "wdata \<Rightarrow> world \<Rightarrow> fault + world" where
  "worker_yield wd w =
     (case words (params wd) of
        None \<Rightarrow> Inl Undefined_behaviour
      | Some (per, itv) \<Rightarrow>
          (case process_for per w of
             Inl f \<Rightarrow> Inl f
           | Inr w1 \<Rightarrow>
               (case clock w1 of
                  e # y # rest \<Rightarrow>
                    (case yield_loop (timespec_add_us e per) itv (timespec_add_us y itv) rest of
                       None \<Rightarrow> Inl Out_of_samples
                     | Some (n, c) \<Rightarrow> Inr (emit (replicate n Pthread_yield) (w1\<lparr>clock := c\<rparr>)))
                | _ \<Rightarrow> Inl Out_of_samples)))"

text \<open>"Do workload": the \<open>switch\<close> on the kind of the worker.\<close>

definition do_workload :: "wdata \<Rightarrow> world \<Rightarrow> fault + world" where
  "do_workload wd w =
     (case kind wd of
        WORKER_BATCH \<Rightarrow> worker_batch wd w
      | WORKER_INTERACTIVE \<Rightarrow> worker_interactive wd w
      | WORKER_PERIODC \<Rightarrow> worker_periodic wd w
      | WORKER_YIELD \<Rightarrow> worker_yield wd w)"


subsection \<open>The worker thread\<close>

text \<open>Every workload consumes clock samples only: the list it leaves is never longer.\<close>

lemma poll_spin_length: "poll_spin e c = Some (n, c') \<Longrightarrow> length c' < length c"
proof (induction c arbitrary: n)
  case Nil
  then show ?case by simp
next
  case (Cons now_ts rest)
  then show ?case by (fastforce split: if_splits)
qed

lemma yield_loop_length: "yield_loop e itv y c = Some (n, c') \<Longrightarrow> length c' < length c"
proof (induction c arbitrary: n y)
  case Nil
  then show ?case by simp
next
  case (Cons now_ts rest)
  then show ?case by (fastforce split: if_splits)
qed

lemma process_for_length: "process_for p w = Inr w' \<Longrightarrow> length (clock w') < length (clock w)"
  by (auto simp add: process_for_def emit_def split: list.splits option.splits
      dest!: poll_spin_length)

lemma worker_yield_length: "worker_yield wd w = Inr w' \<Longrightarrow> length (clock w') \<le> length (clock w)"
  by (auto simp add: worker_yield_def emit_def split: sum.splits list.splits option.splits
      dest!: yield_loop_length process_for_length)

lemma do_workload_length: "do_workload wd w = Inr w' \<Longrightarrow> length (clock w') \<le> length (clock w)"
  by (auto simp add: do_workload_def worker_batch_def worker_interactive_def worker_periodic_def
      emit_def
      split: worker_kind.splits list.splits option.splits
      dest!: process_for_length worker_yield_length)

text \<open>
  The driver loop of \<open>worker\<close>:
  \<^verbatim>\<open>while (1) { clock_gettime(.., &now_ts); if (timespec_older(&now_ts, &end_ts)) break; switch (wdata->kind) ... }\<close>
  Beside the world it leaves, the model returns the samples the loop itself has read
  ("Check end of test"), in order.
\<close>

function worker_loop :: "wdata \<Rightarrow> timespec \<Rightarrow> world \<Rightarrow> fault + (timespec list \<times> world)" where
  "worker_loop wd end_ts w =
     (case clock w of
        [] \<Rightarrow> Inl Out_of_samples
      | now_ts # rest \<Rightarrow>
          if timespec_older now_ts end_ts \<noteq> 0 then Inr ([now_ts], w\<lparr>clock := rest\<rparr>)
          else (case do_workload wd (w\<lparr>clock := rest\<rparr>) of
                  Inl f \<Rightarrow> Inl f
                | Inr w1 \<Rightarrow>
                    (case worker_loop wd end_ts w1 of
                       Inl f \<Rightarrow> Inl f
                     | Inr (ss, w2) \<Rightarrow> Inr (now_ts # ss, w2))))"
  by pat_completeness auto
termination
proof (relation "measure (\<lambda>(wd, end_ts, w). length (clock w))")
  show "wf (measure (\<lambda>(wd, end_ts, w). length (clock w)))" by simp
next
  fix wd :: wdata and end_ts :: timespec and w :: world and now_ts rest w1
  assume "clock w = now_ts # rest" and "do_workload wd (w\<lparr>clock := rest\<rparr>) = Inr w1"
  then show "((wd, end_ts, w1), (wd, end_ts, w)) \<in> measure (\<lambda>(wd, end_ts, w). length (clock w))"
    using do_workload_length [of wd "w\<lparr>clock := rest\<rparr>" w1] by simp
qed

declare worker_loop.simps [simp del]

text \<open>
  "Setup worker termination time": the deadline is the worker's own sample of the clock,
  taken after \<open>sync_start\<close> has returned, with \<open>conf_td\<close> added to the seconds.
\<close>

definition worker_end_ts :: "u8 \<Rightarrow> timespec \<Rightarrow> timespec" where
  "worker_end_ts conf_td t0 = t0\<lparr>tv_sec := tv_sec t0 + ucast conf_td\<rparr>"

text \<open>
  The thread function \<open>worker\<close>; \<open>tid\<close> is what \<open>gettid()\<close> returns. The name of the thread
  and the seed of the random generator are not part of the model: the values of
  \<open>random()\<close> are given by the world. \<open>sync_start\<close> blocks the thread until \<open>main\<close>
  broadcasts; in the run of one thread it is the event \<open>Sync_start\<close>, and the samples of
  the clock are those the thread reads after it.
\<close>

definition worker :: "u8 \<Rightarrow> u32 \<Rightarrow> wdata \<Rightarrow> world \<Rightarrow> fault + (wdata \<times> timespec list \<times> world)" where
  "worker conf_td tid wd w =
     (let wd1 = wd\<lparr>pid := tid\<rparr>; w1 = emit [Sync_start] w
      in case clock w1 of
           [] \<Rightarrow> Inl Out_of_samples
         | t0 # rest \<Rightarrow>
             (case worker_loop wd1 (worker_end_ts conf_td t0) (w1\<lparr>clock := rest\<rparr>) of
                Inl f \<Rightarrow> Inl f
              | Inr (ss, w2) \<Rightarrow> Inr (wd1, ss, w2)))"

text \<open>
  The driver as the specification words it: \<open>n\<close> iterations, each of which samples the
  clock and invokes the worker model once, and a last sample at which the loop stops. It
  returns the samples it has read, in order, and the world it leaves.
\<close>

fun run_iterations :: "wdata \<Rightarrow> nat \<Rightarrow> world \<Rightarrow> fault + (timespec list \<times> world)" where
  "run_iterations wd 0 w =
     (case clock w of
        [] \<Rightarrow> Inl Out_of_samples
      | now_ts # rest \<Rightarrow> Inr ([now_ts], w\<lparr>clock := rest\<rparr>))"
| "run_iterations wd (Suc n) w =
     (case clock w of
        [] \<Rightarrow> Inl Out_of_samples
      | now_ts # rest \<Rightarrow>
          (case do_workload wd (w\<lparr>clock := rest\<rparr>) of
             Inl f \<Rightarrow> Inl f
           | Inr w1 \<Rightarrow>
               (case run_iterations wd n w1 of
                  Inl f \<Rightarrow> Inl f
                | Inr (ss, w2) \<Rightarrow> Inr (now_ts # ss, w2))))"

section \<open>Setup workload\<close>

subsection \<open>The C library functions of the setup\<close>

text \<open>
  \<open>sscanf\<close> with one conversion \<open>%hhu\<close> or \<open>%d\<close> skips white space, reads an optional sign
  and then the longest run of decimal digits; without a digit nothing is converted and the
  result is less than 1 (\<open>None\<close>). The number is converted as \<open>strtoul\<close> or \<open>strtol\<close> do
  (the value saturates at the bounds of \<open>unsigned long\<close> or \<open>long\<close>), and its low bits are
  stored in the \<open>unsigned char\<close> or \<open>int\<close> the argument points to.
\<close>

definition isspace :: "char \<Rightarrow> bool" where
  "isspace c = ((of_char c :: int) = 32 \<or> (9 \<le> (of_char c :: int) \<and> (of_char c :: int) \<le> 13))"

definition isdigit :: "char \<Rightarrow> bool" where
  "isdigit c = (48 \<le> (of_char c :: int) \<and> (of_char c :: int) \<le> 57)"

definition scan_number :: "string \<Rightarrow> (bool \<times> int) option" where
  "scan_number s =
     (let s1 = dropWhile isspace s;
          (neg, s2) = (case s1 of
                         [] \<Rightarrow> (False, [])
                       | c # r \<Rightarrow> if c = CHR ''-'' then (True, r)
                                  else if c = CHR ''+'' then (False, r) else (False, s1));
          ds = takeWhile isdigit s2
      in if ds = [] then None
         else Some (neg, foldl (\<lambda>a c. 10 * a + (of_char c - 48)) 0 ds))"

definition sscanf_hhu :: "string \<Rightarrow> u8 option" where
  "sscanf_hhu s =
     (case scan_number s of
        None \<Rightarrow> None
      | Some (neg, n) \<Rightarrow>
          Some (if 18446744073709551616 \<le> n then 255
                else if neg then word_of_int (- n) else word_of_int n))"

definition sscanf_d :: "string \<Rightarrow> u32 option" where
  "sscanf_d s =
     (case scan_number s of
        None \<Rightarrow> None
      | Some (neg, n) \<Rightarrow>
          Some (if neg then (if 9223372036854775808 \<le> n then 0 else word_of_int (- n))
                else (if 9223372036854775808 \<le> n then 4294967295 else word_of_int n)))"

text \<open>
  \<open>strsep(&p, ",")\<close>: the token up to the first comma and the new value of \<open>p\<close> (\<open>NULL\<close>,
  here \<open>None\<close>, when there is no comma); \<open>NULL\<close> for both when \<open>p\<close> is \<open>NULL\<close>.
\<close>

definition strsep :: "string option \<Rightarrow> string option \<times> string option" where
  "strsep sp =
     (case sp of
        None \<Rightarrow> (None, None)
      | Some s \<Rightarrow>
          (Some (takeWhile (\<lambda>c. c \<noteq> CHR '','') s),
           case dropWhile (\<lambda>c. c \<noteq> CHR '','') s of [] \<Rightarrow> None | c # r \<Rightarrow> Some r))"

subsection \<open>parse\_cmdline\<close>

record conf =
  conf_bw :: u8
  conf_iw :: u8
  conf_pw :: u8
  conf_yw :: u8
  conf_td :: u8
  conf_iparams :: "string option"
  conf_pparams :: "string option"
  conf_yparams :: "string option"

text \<open>The initial values of the globals.\<close>

definition conf_init :: conf where
  "conf_init = \<lparr>conf_bw = 0, conf_iw = 0, conf_pw = 0, conf_yw = 0, conf_td = 5,
                conf_iparams = None, conf_pparams = None, conf_yparams = None\<rparr>"

text \<open>
  How the process ends before \<open>main\<close> returns: \<open>exit\<close> with its argument, \<open>abort\<close>, or a
  fault on a \<open>NULL\<close> string handed to \<open>sscanf\<close>. The status the parent sees after
  \<open>exit n\<close> is the low byte of \<open>n\<close>.
\<close>

datatype outcome = Exit int | Abort | Segfault

definition exit_status :: "int \<Rightarrow> int" where
  "exit_status n = n mod 256"

text \<open>
  \<open>parse_cmdline\<close> runs over what the successive calls of \<open>getopt_long\<close> return: the
  option character and \<open>optarg\<close>. For a character that is no case of the \<open>switch\<close> (\<open>?\<close> for an
  unknown option or a missing argument, \<open>0\<close> for \<open>--verbose\<close>) the program aborts.
\<close>

fun parse_cmdline :: "conf \<Rightarrow> (char \<times> string) list \<Rightarrow> outcome + conf" where
  "parse_cmdline c [] = Inr c"
| "parse_cmdline c ((opt, optarg) # next_opts) =
     (if opt = CHR ''b'' then
        (case sscanf_hhu optarg of
           None \<Rightarrow> Inl (Exit (- 1))
         | Some v \<Rightarrow> parse_cmdline (c\<lparr>conf_bw := v\<rparr>) next_opts)
      else if opt = CHR ''d'' then
        (case sscanf_hhu optarg of
           None \<Rightarrow> parse_cmdline c next_opts
         | Some v \<Rightarrow> parse_cmdline (c\<lparr>conf_td := v\<rparr>) next_opts)
      else if opt = CHR ''h'' then Inl (Exit 0)
      else if opt = CHR ''i'' then
        (case sscanf_hhu optarg of
           None \<Rightarrow> Inl (Exit (- 1))
         | Some v \<Rightarrow> parse_cmdline (c\<lparr>conf_iw := v, conf_iparams := Some optarg\<rparr>) next_opts)
      else if opt = CHR ''p'' then
        (case sscanf_hhu optarg of
           None \<Rightarrow> Inl (Exit (- 1))
         | Some v \<Rightarrow> parse_cmdline (c\<lparr>conf_pw := v, conf_pparams := Some optarg\<rparr>) next_opts)
      else if opt = CHR ''y'' then
        (case sscanf_hhu optarg of
           None \<Rightarrow> Inl (Exit (- 1))
         | Some v \<Rightarrow> parse_cmdline (c\<lparr>conf_yw := v, conf_yparams := Some optarg\<rparr>) next_opts)
      else Inl Abort)"


subsection \<open>main: the workers are set up and launched\<close>

text \<open>
  \<open>create_worker\<close> ends the process when a thread cannot be made: \<open>exit(1)\<close> (in \<open>barf\<close>) when
  \<open>pthread_attr_init\<close> fails, \<open>exit(-1)\<close> when \<open>pthread_create\<close> fails. Whether the \<open>n\<close>-th
  thread can be made is given from outside (\<open>env n\<close>, \<open>n\<close> counted from 0).
\<close>

datatype pthread_result = Pthread_ok | Attr_init_failed | Create_failed

text \<open>
  The local variables of \<open>main\<close> during the setup: \<open>p1\<close> and \<open>p2\<close> (not initialized by the
  program, and kept from one \<open>sscanf\<close> to the next when a conversion fails), the base index
  \<open>w\<close> (the fields \<open>var_p1\<close>, \<open>var_p2\<close> and \<open>var_w\<close>), and the threads made so far, each with its index into \<open>workers_data\<close> and the data
  the thread is given. The arrays themselves are not modelled as memory.
\<close>

record launch =
  var_p1 :: u32
  var_p2 :: u32
  var_w :: u8
  workers :: "(nat \<times> wdata) list"

type_synonym halted = "outcome \<times> (nat \<times> wdata) list"

definition create_worker :: "(nat \<Rightarrow> pthread_result) \<Rightarrow> nat \<Rightarrow> wdata \<Rightarrow> launch \<Rightarrow> halted + launch" where
  "create_worker env slot wd st =
     (case env (length (workers st)) of
        Pthread_ok \<Rightarrow> Inr (st\<lparr>workers := workers st @ [(slot, wd)]\<rparr>)
      | Attr_init_failed \<Rightarrow> Inl (Exit 1, workers st)
      | Create_failed \<Rightarrow> Inl (Exit (- 1), workers st))"

text \<open>
  \<open>param = strsep(&conf_xparams, ","); sscanf(param, "%d", &p);\<close> The new value of \<open>p\<close>
  (the old one when nothing is converted) and of the pointer into the parameters.
\<close>

definition read_param :: "string option \<Rightarrow> u32 \<Rightarrow> outcome + (u32 \<times> string option)" where
  "read_param sp old =
     (case strsep sp of
        (None, sp1) \<Rightarrow> Inl Segfault
      | (Some tok, sp1) \<Rightarrow> Inr (case sscanf_d tok of None \<Rightarrow> old | Some v \<Rightarrow> v, sp1))"

text \<open>
  The four loops \<open>for (i = 0; i < conf_xw; ++i)\<close>. The first argument after \<open>env\<close> counts the
  iterations that are left, the second is \<open>i\<close>.
\<close>

fun alloc_batch :: "(nat \<Rightarrow> pthread_result) \<Rightarrow> nat \<Rightarrow> nat \<Rightarrow> launch \<Rightarrow> halted + launch" where
  "alloc_batch env 0 i st = Inr st"
| "alloc_batch env (Suc n) i st =
     (case create_worker env (unat (var_w st) + i)
             \<lparr>wid = of_nat (i + 1), pid = 0, kind = WORKER_BATCH, params = Unset\<rparr> st of
        Inl h \<Rightarrow> Inl h
      | Inr st1 \<Rightarrow> alloc_batch env n (Suc i) st1)"

fun alloc_interactive ::
  "(nat \<Rightarrow> pthread_result) \<Rightarrow> nat \<Rightarrow> nat \<Rightarrow> string option \<Rightarrow> launch \<Rightarrow> halted + launch" where
  "alloc_interactive env 0 i sp st = Inr st"
| "alloc_interactive env (Suc n) i sp st =
     (case read_param sp (var_p1 st) of
        Inl e \<Rightarrow> Inl (e, workers st)
      | Inr (v1, sp1) \<Rightarrow>
          (case read_param sp1 (var_p2 st) of
             Inl e \<Rightarrow> Inl (e, workers st)
           | Inr (v2, sp2) \<Rightarrow>
               (case create_worker env (unat (var_w st) + i)
                       \<lparr>wid = of_nat (i + 1), pid = 0, kind = WORKER_INTERACTIVE,
                          params = Interrupt v1 v2\<rparr>
                       (st\<lparr>var_p1 := v1, var_p2 := v2\<rparr>) of
                  Inl h \<Rightarrow> Inl h
                | Inr st1 \<Rightarrow> alloc_interactive env n (Suc i) sp2 st1)))"

fun alloc_periodic ::
  "(nat \<Rightarrow> pthread_result) \<Rightarrow> nat \<Rightarrow> nat \<Rightarrow> string option \<Rightarrow> launch \<Rightarrow> halted + launch" where
  "alloc_periodic env 0 i sp st = Inr st"
| "alloc_periodic env (Suc n) i sp st =
     (case read_param sp (var_p1 st) of
        Inl e \<Rightarrow> Inl (e, workers st)
      | Inr (v1, sp1) \<Rightarrow>
          (case read_param sp1 (var_p2 st) of
             Inl e \<Rightarrow> Inl (e, workers st)
           | Inr (v2, sp2) \<Rightarrow>
               if 100 < v2 then Inl (Exit (- 1), workers st)
               else
                 (case create_worker env (unat (var_w st) + i)
                         \<lparr>wid = of_nat (i + 1), pid = 0, kind = WORKER_PERIODC,
                            params = Period v1 v2\<rparr>
                         (st\<lparr>var_p1 := v1, var_p2 := v2\<rparr>) of
                    Inl h \<Rightarrow> Inl h
                  | Inr st1 \<Rightarrow> alloc_periodic env n (Suc i) sp2 st1)))"

fun alloc_yield ::
  "(nat \<Rightarrow> pthread_result) \<Rightarrow> nat \<Rightarrow> nat \<Rightarrow> string option \<Rightarrow> launch \<Rightarrow> halted + launch" where
  "alloc_yield env 0 i sp st = Inr st"
| "alloc_yield env (Suc n) i sp st =
     (case read_param sp (var_p1 st) of
        Inl e \<Rightarrow> Inl (e, workers st)
      | Inr (v1, sp1) \<Rightarrow>
          (case read_param sp1 (var_p2 st) of
             Inl e \<Rightarrow> Inl (e, workers st)
           | Inr (v2, sp2) \<Rightarrow>
               if v1 < v2 then Inl (Exit (- 1), workers st)
               else
                 (case create_worker env (unat (var_w st) + i)
                         \<lparr>wid = of_nat (i + 1), pid = 0, kind = WORKER_YIELD,
                            params = Yield v1 v2\<rparr>
                         (st\<lparr>var_p1 := v1, var_p2 := v2\<rparr>) of
                    Inl h \<Rightarrow> Inl h
                  | Inr st1 \<Rightarrow> alloc_yield env n (Suc i) sp2 st1)))"

text \<open>
  The setup of \<open>main\<close>, from "Allocate BATCH workers" to the last \<open>w += i\<close>. Before each of
  the three loops with parameters one \<open>strsep\<close> drops the count from the parameters.
  \<open>p1_0\<close> and \<open>p2_0\<close> are the values \<open>p1\<close> and \<open>p2\<close> happen to hold at the start.
\<close>

definition setup_workers :: "(nat \<Rightarrow> pthread_result) \<Rightarrow> conf \<Rightarrow> u32 \<Rightarrow> u32 \<Rightarrow> halted + launch" where
  "setup_workers env c p1_0 p2_0 =
     (case alloc_batch env (unat (conf_bw c)) 0 \<lparr>var_p1 = p1_0, var_p2 = p2_0, var_w = 0, workers = []\<rparr> of
        Inl h \<Rightarrow> Inl h
      | Inr sb \<Rightarrow>
          (case alloc_interactive env (unat (conf_iw c)) 0 (snd (strsep (conf_iparams c)))
                  (sb\<lparr>var_w := var_w sb + conf_bw c\<rparr>) of
             Inl h \<Rightarrow> Inl h
           | Inr si \<Rightarrow>
               (case alloc_periodic env (unat (conf_pw c)) 0 (snd (strsep (conf_pparams c)))
                       (si\<lparr>var_w := var_w si + conf_iw c\<rparr>) of
                  Inl h \<Rightarrow> Inl h
                | Inr sp \<Rightarrow>
                    (case alloc_yield env (unat (conf_yw c)) 0 (snd (strsep (conf_yparams c)))
                            (sp\<lparr>var_w := var_w sp + conf_pw c\<rparr>) of
                       Inl h \<Rightarrow> Inl h
                     | Inr sy \<Rightarrow> Inr (sy\<lparr>var_w := var_w sy + conf_yw c\<rparr>)))))"

text \<open>
  \<open>main\<close> up to the point where every worker has been launched: either the process has
  ended, with the workers launched until then, or the configuration and the workers.
\<close>

definition wlg_main ::
  "(nat \<Rightarrow> pthread_result) \<Rightarrow> (char \<times> string) list \<Rightarrow> u32 \<Rightarrow> u32 \<Rightarrow> halted + (conf \<times> launch)" where
  "wlg_main env opts p1_0 p2_0 =
     (case parse_cmdline conf_init opts of
        Inl e \<Rightarrow> Inl (e, [])
      | Inr c \<Rightarrow>
          (case setup_workers env c p1_0 p2_0 of
             Inl h \<Rightarrow> Inl h
           | Inr st \<Rightarrow> Inr (c, st)))"


subsection \<open>What has been launched, and which parameters are valid\<close>

text \<open>
  The workers launched by a run of the setup, whether it ended the process or not, and the
  two conditions \<open>main\<close> checks on the parameters: a duty cycle of at most 100 for a
  periodic worker, a yield interval of at most the period for a yield worker.
\<close>

definition launched :: "halted + launch \<Rightarrow> (nat \<times> wdata) list" where
  "launched r = (case r of Inl (e, ws) \<Rightarrow> ws | Inr st \<Rightarrow> workers st)"

fun valid_params :: "params \<Rightarrow> bool" where
  "valid_params (Period P D) = (D \<le> 100)"
| "valid_params (Yield P I) = (I \<le> P)"
| "valid_params other = True"

definition all_valid :: "(nat \<times> wdata) list \<Rightarrow> bool" where
  "all_valid ws = list_all (\<lambda>(slot, wd). valid_params (params wd)) ws"

definition launched_main :: "halted + (conf \<times> launch) \<Rightarrow> (nat \<times> wdata) list" where
  "launched_main r = (case r of Inl (e, ws) \<Rightarrow> ws | Inr (c, st) \<Rightarrow> workers st)"

section \<open>Properties of the time utilities\<close>

subsection \<open>Signed readings of the 64-bit fields\<close>

lemma uint_u32_bound: "uint (x::u32) < 4294967296"
  using uint_lt2p [of x] by simp

lemma sint_of_int_s64:
  "- 9223372036854775808 \<le> k \<Longrightarrow> k < 9223372036854775808 \<Longrightarrow> sint (word_of_int k :: s64) = k"
  by (simp add: sint_sbintrunc' signed_take_bit_int_eq_self)

lemma sint_ucast_u32: "sint (ucast (x::u32) :: s64) = uint x"
proof -
  have "(ucast x :: s64) = word_of_int (uint x)" by simp
  then show ?thesis
    using uint_u32_bound [of x] uint_ge_0 [of x] by (simp only: sint_of_int_s64)
qed

lemma sint_add_small:
  fixes a b :: s64
  assumes "0 \<le> sint a" "sint a < 1000000000" "0 \<le> sint b" "sint b < 4294967296"
  shows "sint (a + b) = sint a + sint b"
  using assms by (simp add: sint_word_ariths signed_take_bit_int_eq_self)

lemma sint_S_TO_NS: "sint (word_of_int S_TO_NS :: s64) = 1000000000"
  by (simp add: S_TO_NS_def)

lemma smod64_S_TO_NS:
  assumes "0 \<le> sint v"
  shows "sint (smod64 v (word_of_int S_TO_NS)) = sint v mod 1000000000"
proof -
  have m: "sint v smod 1000000000 = sint v mod 1000000000"
    using assms by (simp add: signed_modulo_int_def sgn_if)
  have r: "0 \<le> sint v mod 1000000000" "sint v mod 1000000000 < 1000000000" by simp_all
  show ?thesis
    unfolding smod64_def sint_S_TO_NS m using r
    by (simp add: sint_of_int_s64)
qed

lemma add_normalized:
  assumes "normalized ts"
  shows "0 \<le> sint (tv_nsec ts + ucast (x::u32))"
  using assms uint_u32_bound [of x] unfolding normalized_def S_TO_NS_def
  by (simp add: sint_add_small sint_ucast_u32)

lemma smod64_normal:
  assumes "0 \<le> sint v"
  shows "0 \<le> sint (smod64 v (word_of_int S_TO_NS)) \<and> sint (smod64 v (word_of_int S_TO_NS)) < S_TO_NS"
  using smod64_S_TO_NS [OF assms] by (simp add: S_TO_NS_def)

lemma add_ms_normalized: "normalized ts \<Longrightarrow> normalized (timespec_add_ms ts ms)"
  using smod64_normal [OF add_normalized]
  by (simp add: timespec_add_ms_def Let_def normalized_def)

lemma add_us_normalized: "normalized ts \<Longrightarrow> normalized (timespec_add_us ts us)"
  using smod64_normal [OF add_normalized]
  by (simp add: timespec_add_us_def Let_def normalized_def)

lemma add_ns_normalized: "normalized ts \<Longrightarrow> normalized (timespec_add_ns ts ns)"
  using smod64_normal [OF add_normalized]
  by (simp add: timespec_add_ns_def Let_def normalized_def)

lemma sint_sub_small:
  fixes a b :: s64
  assumes "0 \<le> sint a" "sint a < 1000000000" "0 \<le> sint b" "sint b < 1000000000"
  shows "sint (a - b) = sint a - sint b"
  using assms by (simp add: sint_word_ariths signed_take_bit_int_eq_self)

lemma subtract_normalized:
  assumes "normalized a" "normalized b"
  shows "normalized (timespec_subtract a b)"
proof -
  have d: "sint (tv_nsec a - tv_nsec b) = sint (tv_nsec a) - sint (tv_nsec b)"
    using assms by (simp add: normalized_def S_TO_NS_def sint_sub_small)
  show ?thesis
  proof (cases "sint (tv_nsec a - tv_nsec b) < 0")
    case True
    have "sint (tv_nsec a - tv_nsec b + word_of_int S_TO_NS) = sint (tv_nsec a) - sint (tv_nsec b) + 1000000000"
      using True d assms
      by (simp add: normalized_def S_TO_NS_def sint_word_ariths signed_take_bit_int_eq_self)
    with True d assms show ?thesis
      by (simp add: timespec_subtract_def Let_def normalized_def S_TO_NS_def)
  next
    case False
    with d assms show ?thesis
      by (simp add: timespec_subtract_def Let_def normalized_def S_TO_NS_def)
  qed
qed

lemma us_split:
  fixes d :: u32
  shows "d - d div 1000000 * 1000000 = d mod 1000000"
  by (simp add: minus_div_mult_eq_mod)

lemma uint_us_ns:
  fixes d :: u32
  shows "uint ((d mod 1000000) * word_of_int US_TO_NS) = uint d mod 1000000 * 1000"
proof -
  have "uint (d mod 1000000) = uint d mod 1000000"
    by (simp add: uint_mod_distrib)
  moreover have "uint d mod 1000000 < 1000000" "0 \<le> uint d mod 1000000" by simp_all
  ultimately show ?thesis
    by (simp add: US_TO_NS_def uint_word_ariths take_bit_int_eq_self)
qed

lemma sdiv64_S_TO_NS:
  assumes "0 \<le> sint v"
  shows "sdiv64 v (word_of_int S_TO_NS) = word_of_int (sint v div 1000000000)"
  using assms by (simp add: sdiv64_def sint_S_TO_NS signed_divide_int_def sgn_if)

lemma smod64_S_TO_NS_word:
  assumes "0 \<le> sint v"
  shows "smod64 v (word_of_int S_TO_NS) = word_of_int (sint v mod 1000000000)"
  using assms by (simp add: smod64_def sint_S_TO_NS signed_modulo_int_def sgn_if)

subsection \<open>Deadline comparison\<close>

text \<open>
  Claim C1. For every pair of instants \<open>a\<close> and \<open>b\<close>, \<open>timespec_older a b\<close> is non-zero
  exactly when the seconds of \<open>a\<close> exceed the seconds of \<open>b\<close>, or the seconds are equal and
  the nanoseconds of \<open>a\<close> are greater than or equal to those of \<open>b\<close> (the lexicographic
  comparison of the signed pairs); \<open>timespec_older a a\<close> is non-zero for every \<open>a\<close>; and for
  every \<open>a\<close> and \<open>b\<close> at least one of \<open>timespec_older a b\<close> and \<open>timespec_older b a\<close>
  is non-zero.
\<close>

theorem timespec_older_lexicographic:
  "(timespec_older a b \<noteq> 0) =
     (sint (tv_sec a) > sint (tv_sec b) \<or>
      (tv_sec a = tv_sec b \<and> sint (tv_nsec a) \<ge> sint (tv_nsec b)))
   \<and> timespec_older a a = 1
   \<and> (timespec_older a b = 1 \<or> timespec_older b a = 1)"
proof -
  have eq: "sint (tv_sec a) = sint (tv_sec b) \<longleftrightarrow> tv_sec a = tv_sec b"
    by (rule signed_word_eqI [THEN iffI]) simp_all
  show ?thesis
    unfolding timespec_older_def using eq by auto
qed

theorem timespec_older_lexicographic_witness:
  "timespec_older \<lparr>tv_sec = 5, tv_nsec = 7\<rparr> \<lparr>tv_sec = 5, tv_nsec = 7\<rparr> = 1
   \<and> timespec_older \<lparr>tv_sec = 5, tv_nsec = 7\<rparr> \<lparr>tv_sec = 4, tv_nsec = 999999999\<rparr> \<noteq> 0
   \<and> timespec_older \<lparr>tv_sec = - 1, tv_nsec = 0\<rparr> \<lparr>tv_sec = 4, tv_nsec = 0\<rparr> = 0"
  using timespec_older_lexicographic
    [of "\<lparr>tv_sec = 5, tv_nsec = 7\<rparr>" "\<lparr>tv_sec = 4, tv_nsec = 999999999\<rparr>"]
    timespec_older_lexicographic
    [of "\<lparr>tv_sec = - 1, tv_nsec = 0\<rparr>" "\<lparr>tv_sec = 4, tv_nsec = 0\<rparr>"]
  by simp

subsection \<open>Normalization is kept by the arithmetic\<close>

text \<open>
  Claim C2. For every timespec whose nanosecond field lies in \<open>[0, 1e9)\<close>, after adding any
  \<open>uint32\<close> amount of milliseconds, microseconds or nanoseconds, and after subtracting any
  normalized timespec from it, the nanosecond field of the result lies in \<open>[0, 1e9)\<close> again.
\<close>

theorem timespec_arith_normalized:
  assumes "normalized ts"
  shows "normalized (timespec_add_ms ts ms)
       \<and> normalized (timespec_add_us ts us)
       \<and> normalized (timespec_add_ns ts ns)
       \<and> (normalized b \<longrightarrow> normalized (timespec_subtract ts b))"
  using assms
  by (simp add: add_ms_normalized add_us_normalized add_ns_normalized subtract_normalized)

theorem timespec_arith_normalized_witness:
  "normalized \<lparr>tv_sec = 1, tv_nsec = 999999999\<rparr>
   \<and> normalized \<lparr>tv_sec = 0, tv_nsec = 5\<rparr>
   \<and> timespec_add_ms \<lparr>tv_sec = 1, tv_nsec = 999999999\<rparr> 4294967295
         = \<lparr>tv_sec = 4294969, tv_nsec = 294999999\<rparr>
   \<and> normalized (timespec_add_ms \<lparr>tv_sec = 1, tv_nsec = 999999999\<rparr> 4294967295)
   \<and> normalized (timespec_add_us \<lparr>tv_sec = 1, tv_nsec = 999999999\<rparr> 1)
   \<and> normalized (timespec_add_ns \<lparr>tv_sec = 1, tv_nsec = 999999999\<rparr> 4294967295)
   \<and> normalized (timespec_subtract \<lparr>tv_sec = 0, tv_nsec = 5\<rparr> \<lparr>tv_sec = 1, tv_nsec = 999999999\<rparr>)"
proof -
  have a: "normalized \<lparr>tv_sec = 1, tv_nsec = 999999999\<rparr>"
    and b: "normalized \<lparr>tv_sec = 0, tv_nsec = 5\<rparr>"
    by (simp_all add: normalized_def S_TO_NS_def)
  have v: "timespec_add_ms \<lparr>tv_sec = 1, tv_nsec = 999999999\<rparr> 4294967295
         = \<lparr>tv_sec = 4294969, tv_nsec = 294999999\<rparr>"
    by (simp add: timespec_add_ms_def sdiv64_def smod64_def S_TO_MS_def MS_TO_NS_def S_TO_NS_def
        signed_divide_int_def signed_modulo_int_def)
  show ?thesis
    using a b v timespec_arith_normalized [OF a, of 4294967295 1 4294967295]
      timespec_arith_normalized [OF b, of 0 0 0 "\<lparr>tv_sec = 1, tv_nsec = 999999999\<rparr>"]
    by simp
qed

subsection \<open>Adding a duration and measuring it back\<close>

lemma add_us_subtract:
  assumes "normalized t"
  shows "timespec_subtract (timespec_add_us t d) t =
           \<lparr>tv_sec = ucast (d div 1000000), tv_nsec = ucast ((d mod 1000000) * 1000)\<rparr>"
proof -
  define x :: u32 where "x = (d mod 1000000) * word_of_int US_TO_NS"
  define nsec where "nsec = tv_nsec t + ucast x"
  have n: "0 \<le> sint (tv_nsec t)" "sint (tv_nsec t) < 1000000000"
    using assms by (simp_all add: normalized_def S_TO_NS_def)
  have ux: "0 \<le> uint x" "uint x < 1000000000"
    unfolding x_def uint_us_ns by simp_all
  have sx: "sint (ucast x :: s64) = uint x" by (rule sint_ucast_u32)
  have sn: "sint nsec = sint (tv_nsec t) + uint x"
    unfolding nsec_def using n ux by (simp add: sint_add_small sx)
  have nn: "0 \<le> sint nsec" "sint nsec < 2000000000" using sn n ux by simp_all
  have add: "timespec_add_us t d =
      \<lparr>tv_sec = tv_sec t + (word_of_int (sint nsec div 1000000000) + ucast (d div 1000000)),
       tv_nsec = word_of_int (sint nsec mod 1000000000)\<rparr>"
    using sdiv64_S_TO_NS [OF nn(1)] smod64_S_TO_NS_word [OF nn(1)]
    by (simp add: timespec_add_us_def Let_def us_split nsec_def x_def S_TO_US_def)
  show ?thesis
  proof (cases "sint nsec < 1000000000")
    case True
    then have dm: "sint nsec div 1000000000 = 0" "sint nsec mod 1000000000 = sint nsec"
      using nn by simp_all
    have "sint (nsec - tv_nsec t) = uint x"
      by (simp add: nsec_def sx)
    then have "\<not> sint (nsec - tv_nsec t) < 0" using ux by simp
    then show ?thesis
      unfolding add dm
      by (simp add: timespec_subtract_def Let_def) (simp add: nsec_def x_def US_TO_NS_def)
  next
    case False
    then have dm: "sint nsec div 1000000000 = 1" "sint nsec mod 1000000000 = sint nsec - 1000000000"
    proof -
      define r where "r = sint nsec - 1000000000"
      have r: "0 \<le> r" "r < 1000000000" "sint nsec = r + 1000000000"
        using False nn by (simp_all add: r_def)
      have "(r + 1000000000) div 1000000000 = r div 1000000000 + 1"
        and "(r + 1000000000) mod 1000000000 = r mod 1000000000"
        by simp_all
      with r show "sint nsec div 1000000000 = 1" "sint nsec mod 1000000000 = sint nsec - 1000000000"
        by simp_all
    qed
    have w: "(word_of_int (sint nsec - 1000000000) :: s64) = nsec - 1000000000"
      by simp
    have e: "nsec - 1000000000 - tv_nsec t = ucast x - 1000000000"
      by (simp add: nsec_def)
    have "sint (ucast x - 1000000000 :: s64) = uint x - 1000000000"
      using ux by (simp add: sint_word_ariths sx signed_take_bit_int_eq_self)
    then have neg: "sint (nsec - 1000000000 - tv_nsec t) < 0"
      unfolding e using ux by simp
    show ?thesis
      unfolding add dm w using neg
      by (simp add: timespec_subtract_def Let_def S_TO_NS_def) (simp add: nsec_def x_def US_TO_NS_def)
  qed
qed

text \<open>
  Claim C3. For every normalized instant \<open>t\<close> and every amount \<open>d\<close> of microseconds,
  \<open>timespec_subtract (timespec_add_us t d) t\<close> is \<open>d\<close> microseconds as a normalized pair:
  \<open>d div 1000000\<close> seconds and \<open>(d mod 1000000) * 1000\<close> nanoseconds.
\<close>

theorem add_us_subtract_roundtrip:
  assumes "normalized t"
  shows "timespec_subtract (timespec_add_us t d) t =
           \<lparr>tv_sec = ucast (d div 1000000), tv_nsec = ucast ((d mod 1000000) * 1000)\<rparr>
       \<and> normalized (timespec_subtract (timespec_add_us t d) t)"
proof
  show "timespec_subtract (timespec_add_us t d) t =
           \<lparr>tv_sec = ucast (d div 1000000), tv_nsec = ucast ((d mod 1000000) * 1000)\<rparr>"
    using assms by (rule add_us_subtract)
  show "normalized (timespec_subtract (timespec_add_us t d) t)"
    using assms by (intro subtract_normalized add_us_normalized)
qed

theorem add_us_subtract_roundtrip_witness:
  "normalized \<lparr>tv_sec = 10, tv_nsec = 999999000\<rparr>
   \<and> timespec_add_us \<lparr>tv_sec = 10, tv_nsec = 999999000\<rparr> 2500001
         = \<lparr>tv_sec = 13, tv_nsec = 500000000\<rparr>
   \<and> timespec_subtract (timespec_add_us \<lparr>tv_sec = 10, tv_nsec = 999999000\<rparr> 2500001)
         \<lparr>tv_sec = 10, tv_nsec = 999999000\<rparr> = \<lparr>tv_sec = 2, tv_nsec = 500001000\<rparr>"
proof -
  have a: "normalized \<lparr>tv_sec = 10, tv_nsec = 999999000\<rparr>"
    by (simp add: normalized_def S_TO_NS_def)
  have v: "timespec_add_us \<lparr>tv_sec = 10, tv_nsec = 999999000\<rparr> 2500001
         = \<lparr>tv_sec = 13, tv_nsec = 500000000\<rparr>"
    by (simp add: timespec_add_us_def sdiv64_def smod64_def S_TO_US_def US_TO_NS_def S_TO_NS_def
        signed_divide_int_def signed_modulo_int_def)
  show ?thesis
    using a v add_us_subtract_roundtrip [OF a, of 2500001] by simp
qed

section \<open>Properties of the floating-point computations\<close>

lemma ilog2_bounds:
  assumes "0 < x"
  shows "2 powi (ilog2 x) \<le> x" and "x < 2 powi (ilog2 x + 1)"
proof -
  obtain a b where q: "quotient_of x = (a, b)" by (cases "quotient_of x")
  have b: "0 < b" using q by (rule quotient_of_denom_pos)
  have x: "x = of_int a / of_int b" using q by (rule quotient_of_div)
  have a: "0 < a" using assms b unfolding x by (simp add: zero_less_divide_iff)
  define la lb where "la = bitlen a" and "lb = bitlen b"
  have la: "(2::rat) powi (la - 1) \<le> of_int a" "of_int a < (2::rat) powi la"
  proof -
    have "0 < la" using a by (simp add: la_def bitlen_alt_def) 
    have "2 ^ nat (la - 1) \<le> a" "a < 2 ^ nat la" using bitlen_bounds [OF a] by (simp_all add: la_def)
    then have "(of_int (2 ^ nat (la - 1)) :: rat) \<le> of_int a" "(of_int a :: rat) < of_int (2 ^ nat la)"
      by (simp_all only: of_int_le_iff of_int_less_iff)
    then show "(2::rat) powi (la - 1) \<le> of_int a" "of_int a < (2::rat) powi la"
      using \<open>0 < la\<close> by (simp_all add: power_int_def)
  qed
  have lb: "(2::rat) powi (lb - 1) \<le> of_int b" "of_int b < (2::rat) powi lb"
  proof -
    have "0 < lb" using b by (simp add: lb_def bitlen_alt_def) 
    have "2 ^ nat (lb - 1) \<le> b" "b < 2 ^ nat lb" using bitlen_bounds [OF b] by (simp_all add: lb_def)
    then have "(of_int (2 ^ nat (lb - 1)) :: rat) \<le> of_int b" "(of_int b :: rat) < of_int (2 ^ nat lb)"
      by (simp_all only: of_int_le_iff of_int_less_iff)
    then show "(2::rat) powi (lb - 1) \<le> of_int b" "of_int b < (2::rat) powi lb"
      using \<open>0 < lb\<close> by (simp_all add: power_int_def)
  qed
  have bpos: "(0::rat) < of_int b" using b by simp
  have p: "(0::rat) < 2 powi k" for k by (simp add: power_int_def)
  have lo: "(2::rat) powi (la - lb - 1) \<le> x"
  proof -
    have "(2::rat) powi (la - lb - 1) * of_int b \<le> 2 powi (la - lb - 1) * 2 powi lb"
      using lb(2) p by (simp add: mult_left_mono)
    also have "\<dots> = 2 powi (la - 1)" by (simp flip: power_int_add)
    also have "\<dots> \<le> of_int a" by (rule la(1))
    finally show ?thesis unfolding x using bpos by (simp add: pos_le_divide_eq)
  qed
  have hi: "x < (2::rat) powi (la - lb + 1)"
  proof -
    have "of_int a < (2::rat) powi la" by (rule la(2))
    also have "\<dots> = 2 powi (la - lb + 1) * 2 powi (lb - 1)" by (simp flip: power_int_add)
    also have "\<dots> \<le> 2 powi (la - lb + 1) * of_int b"
      using lb(1) p by (simp add: mult_left_mono)
    finally show ?thesis unfolding x using bpos by (simp add: pos_divide_less_eq)
  qed
  have e: "ilog2 x = (if 2 powi (la - lb) \<le> x then la - lb else la - lb - 1)"
    by (simp add: ilog2_def q la_def lb_def)
  show "2 powi (ilog2 x) \<le> x" using lo by (simp add: e)
  show "x < 2 powi (ilog2 x + 1)" using hi by (auto simp add: e not_le)
qed

lemma round_even_error: "\<bar>of_int (round_even m) - m\<bar> \<le> 1 / 2"
proof -
  have "of_int \<lfloor>m\<rfloor> \<le> m" "m < of_int \<lfloor>m\<rfloor> + 1" by linarith+
  then show ?thesis
    by (auto simp add: round_even_def Let_def)
qed

lemma round_even_of_int [simp]: "round_even (of_int k) = k"
  by (simp add: round_even_def)

lemma pow2_pos: "(0::rat) < 2 powi k"
  by (simp add: power_int_def)

lemma rne_zero [simp]: "rne p 0 = 0"
  by (simp add: rne_def)

lemma rne_error:
  assumes "0 < x"
  shows "\<bar>rne p x - x\<bar> \<le> x / 2 ^ p"
proof -
  define u :: rat where "u = 2 powi (ilog2 x - int p + 1)"
  have u: "0 < u" by (simp add: u_def pow2_pos)
  have r: "rne p x = of_int (round_even (x / u)) * u"
    using assms by (simp add: rne_def Let_def u_def)
  have "\<bar>of_int (round_even (x / u)) - x / u\<bar> * u \<le> 1 / 2 * u"
    using round_even_error [of "x / u"] u by (simp only: mult_right_mono less_imp_le)
  moreover have "\<bar>of_int (round_even (x / u)) - x / u\<bar> * u = \<bar>of_int (round_even (x / u)) * u - x\<bar>"
  proof -
    have "\<bar>of_int (round_even (x / u)) - x / u\<bar> * u = \<bar>(of_int (round_even (x / u)) - x / u) * u\<bar>"
      using u by (simp add: abs_mult)
    also have "(of_int (round_even (x / u)) - x / u) * u = of_int (round_even (x / u)) * u - x"
      using u by (simp add: left_diff_distrib)
    finally show ?thesis .
  qed
  ultimately have e: "\<bar>rne p x - x\<bar> \<le> u / 2" by (simp add: r)
  have "u = 2 powi (ilog2 x) * 2 powi (1 - int p)"
    by (simp add: u_def flip: power_int_add) (simp add: algebra_simps)
  also have "(2::rat) powi (1 - int p) = 2 / 2 ^ p"
    by (simp add: power_int_diff)
  finally have "u / 2 = 2 powi (ilog2 x) / 2 ^ p" by simp
  also have "\<dots> \<le> x / 2 ^ p"
    using ilog2_bounds(1) [OF assms] by (simp add: divide_right_mono)
  finally have "u / 2 \<le> x / 2 ^ p" .
  with e show ?thesis by (rule order_trans)
qed

lemma rne_upper:
  assumes "0 \<le> x"
  shows "rne p x \<le> x * (1 + 1 / 2 ^ p)"
proof (cases "x = 0")
  case False
  then have "0 < x" using assms by simp
  from rne_error [OF this, of p] show ?thesis by (simp add: algebra_simps abs_le_iff)
qed simp

lemma rne_lower:
  assumes "0 \<le> x"
  shows "x * (1 - 1 / 2 ^ p) \<le> rne p x"
proof (cases "x = 0")
  case False
  then have "0 < x" using assms by simp
  from rne_error [OF this, of p] show ?thesis by (simp add: algebra_simps abs_le_iff)
qed simp

lemma rne_nonneg:
  assumes "0 \<le> x"
  shows "0 \<le> rne p x"
proof -
  have "(1::rat) / 2 ^ p \<le> 1" by (simp add: divide_le_eq_1)
  then have "0 \<le> x * (1 - 1 / 2 ^ p)" using assms by simp
  then show ?thesis using rne_lower [OF assms, of p] by simp
qed

lemma rne_exact_int:
  assumes "0 \<le> n" "n < 2 ^ p"
  shows "rne p (of_int n) = of_int n"
proof (cases "n = 0")
  case False
  then have n: "0 < n" using assms by simp
  then have x: "(0::rat) < of_int n" by simp
  define e where "e = ilog2 (of_int n)"
  have "(2::rat) powi e \<le> of_int n" unfolding e_def by (rule ilog2_bounds(1) [OF x])
  also have "(of_int n :: rat) < of_int (2 ^ p)" using assms(2) by (simp only: of_int_less_iff)
  finally have "(2::rat) powi e < 2 powi (int p)" by simp
  then have "e < int p" by (rule power_int_le_imp_less_exp [rotated]) simp_all
  then have "0 \<le> int p - 1 - e" by simp
  then obtain k :: nat where "int p - 1 - e = int k" by (rule nonneg_int_cases)
  then have k: "e - int p + 1 = - int k" by simp
  have u: "(2::rat) powi (e - int p + 1) = 1 / 2 ^ k"
    unfolding k by (simp add: power_int_minus_divide)
  have "(of_int n :: rat) / (1 / 2 ^ k) = of_int (n * 2 ^ k)" by simp
  then have "round_even (of_int n / (1 / 2 ^ k)) = n * 2 ^ k"
    by (simp only: round_even_of_int)
  then show ?thesis
    using n by (simp add: rne_def Let_def u flip: e_def)
qed simp

lemma c_double_exact: "0 \<le> n \<Longrightarrow> n < 9007199254740992 \<Longrightarrow> c_double (of_int n) = of_int n"
  unfolding c_double_def by (rule rne_exact_int) simp_all

lemma c_float_exact: "0 \<le> n \<Longrightarrow> n < 16777216 \<Longrightarrow> c_float (of_int n) = of_int n"
  unfolding c_float_def by (rule rne_exact_int) simp_all

lemma c_double_upper: "0 \<le> x \<Longrightarrow> c_double x \<le> x * (1 + 1 / 9007199254740992)"
  unfolding c_double_def using rne_upper [of x 53] by simp

lemma c_double_lower: "0 \<le> x \<Longrightarrow> x * (1 - 1 / 9007199254740992) \<le> c_double x"
  unfolding c_double_def using rne_lower [of x 53] by simp

lemma c_double_nonneg: "0 \<le> x \<Longrightarrow> 0 \<le> c_double x"
  unfolding c_double_def by (rule rne_nonneg)

lemma rat_of_u32_bounds: "0 \<le> rat_of_u32 w" "rat_of_u32 w < 4294967296"
proof -
  have "(of_int 0 :: rat) \<le> of_int (uint w)" "(of_int (uint w) :: rat) < of_int 4294967296"
    using uint_u32_bound [of w] uint_ge_0 [of w] by (simp_all only: of_int_less_iff of_int_le_iff)
  then show "0 \<le> rat_of_u32 w" "rat_of_u32 w < 4294967296"
    by (simp_all add: rat_of_u32_def del: of_int_uint)
qed

lemma rat_of_long_bounds:
  assumes "lo \<le> sint w" "sint w \<le> hi"
  shows "of_int lo \<le> rat_of_long w" "rat_of_long w \<le> of_int hi"
  using assms unfolding rat_of_long_def by (simp_all only: of_int_le_iff)

lemma to_uint32_floor:
  assumes "0 \<le> x" "x < rat_of_u32 m + 1"
  shows "\<exists>v. to_uint32 x = Some v \<and> uint v = \<lfloor>x\<rfloor> \<and> v \<le> m"
proof -
  have "x < of_int (uint m + 1)" using assms(2) by (simp only: rat_of_u32_def of_int_add of_int_1)
  then have "\<lfloor>x\<rfloor> < uint m + 1" by (simp only: floor_less_iff)
  then have f: "0 \<le> \<lfloor>x\<rfloor>" "\<lfloor>x\<rfloor> \<le> uint m" using assms(1) by simp_all
  have m: "uint m < 4294967296" by (rule uint_u32_bound)
  have lt: "\<lfloor>x\<rfloor> < 4294967296" using f m by linarith
  have "\<lfloor>x\<rfloor> mod 4294967296 = \<lfloor>x\<rfloor>"
    using f(1) lt by (rule mod_pos_pos_trivial)
  then have u: "uint (word_of_int \<lfloor>x\<rfloor> :: u32) = \<lfloor>x\<rfloor>"
    by (simp add: uint_word_of_int take_bit_eq_mod)
  have "to_uint32 x = Some (word_of_int \<lfloor>x\<rfloor>)"
    using assms(1) lt by (simp add: to_uint32_def trunc_def)
  moreover have "(word_of_int \<lfloor>x\<rfloor> :: u32) \<le> m"
    using f u by (simp add: word_le_def)
  ultimately show ?thesis using u by simp
qed

lemma normal_random_value:
  assumes "0 \<le> sint r" "sint r \<le> RAND_MAX"
  shows "\<exists>v. normal_random m r = Some v \<and> v \<le> m"
proof -
  define M :: rat where "M = rat_of_u32 m"
  define R :: rat where "R = rat_of_long r"
  define d :: rat where "d = 1 / 9007199254740992"
  have M: "0 \<le> M" "M < 4294967296" unfolding M_def by (rule rat_of_u32_bounds)+
  have R: "0 \<le> R" "R \<le> 2147483647"
    using rat_of_long_bounds [OF assms] by (simp_all add: R_def RAND_MAX_def)
  have v0: "c_double M = M"
    unfolding M_def rat_of_u32_def using uint_u32_bound [of m] by (intro c_double_exact) simp_all
  have cr: "c_double R = R"
    unfolding R_def rat_of_long_def using assms by (intro c_double_exact) (simp_all add: RAND_MAX_def)
  have cm: "c_double (of_int RAND_MAX) = 2147483647"
    using c_double_exact [of RAND_MAX] by (simp add: RAND_MAX_def)
  define v1 where "v1 = c_double (M * R)"
  define v2 where "v2 = c_double (v1 / 2147483647)"
  have nr: "normal_random m r = to_uint32 v2"
    by (simp add: normal_random_def Let_def v0 cr cm v1_def v2_def flip: M_def R_def)
  have MR: "0 \<le> M * R" using M R by simp
  have v1: "0 \<le> v1" "v1 \<le> M * R * (1 + d)"
    unfolding v1_def d_def using MR by (rule c_double_nonneg, rule c_double_upper)
  have q0: "0 \<le> v1 / 2147483647" using v1(1) by simp
  have "M * R \<le> M * 2147483647" using R(2) M(1) by (rule mult_left_mono)
  then have "M * R * (1 + d) \<le> M * 2147483647 * (1 + d)"
    by (rule mult_right_mono) (simp add: d_def)
  with v1(2) have q1: "v1 / 2147483647 \<le> M * (1 + d)" by simp
  have v2: "0 \<le> v2" "v2 \<le> v1 / 2147483647 * (1 + d)"
    unfolding v2_def d_def using q0 by (rule c_double_nonneg, rule c_double_upper)
  have "v1 / 2147483647 * (1 + d) \<le> M * (1 + d) * (1 + d)"
    using q1 by (simp add: d_def mult_right_mono)
  with v2(2) have "v2 \<le> M * (1 + d) * (1 + d)" by simp
  also have "\<dots> = M + M * (2 * d + d * d)" by (simp add: algebra_simps)
  also have "M * (2 * d + d * d) \<le> 4294967296 * (2 * d + d * d)"
    using M by (simp add: d_def mult_right_mono)
  also have "(4294967296::rat) * (2 * d + d * d) < 1" by (simp add: d_def)
  finally have "v2 < rat_of_u32 m + 1" by (simp add: M_def)
  from to_uint32_floor [OF v2(1) this] show ?thesis by (auto simp add: nr)
qed

lemma periodic_process_bounds:
  assumes P: "uint P < 16777216" and D: "uint D \<le> 100"
  shows "\<exists>pr. periodic_process P D = Some pr \<and> pr \<le> P
           \<and> uint pr \<le> uint P * uint D div 100
           \<and> uint P * uint D div 100 - 1 \<le> uint pr
           \<and> (uint pr = uint P * uint D div 100 \<or> 100 dvd uint P * uint D)"
proof -
  define p where "p = rat_of_u32 P"
  define q where "q = rat_of_u32 D / 100"
  define d :: rat where "d = 1 / 9007199254740992"
  define N where "N = uint P * uint D"
  define k where "k = N div 100"
  define f where "f = N mod 100"
  have p: "0 \<le> p" "p < 16777216"
  proof -
    have "(of_int (uint P) :: rat) < of_int 16777216" using P by (simp only: of_int_less_iff)
    then show "0 \<le> p" "p < 16777216"
      using rat_of_u32_bounds(1) [of P] by (simp_all add: p_def rat_of_u32_def del: of_int_uint)
  qed
  have q: "0 \<le> q" "q \<le> 1"
  proof -
    have "(of_int (uint D) :: rat) \<le> of_int 100" using D by (simp only: of_int_le_iff)
    then show "0 \<le> q" "q \<le> 1"
      using rat_of_u32_bounds(1) [of D] by (simp_all add: q_def rat_of_u32_def del: of_int_uint)
  qed
  have fp: "c_float (rat_of_u32 P) = p"
    unfolding p_def rat_of_u32_def using P by (intro c_float_exact) simp_all
  have fd: "c_float (rat_of_u32 D) = rat_of_u32 D"
    unfolding rat_of_u32_def using D by (intro c_float_exact) simp_all
  define r where "r = c_double q"
  define y where "y = c_double (p * r)"
  have pp: "periodic_process P D = to_uint32 y"
    by (simp add: periodic_process_def fp fd y_def r_def q_def)
  have r: "0 \<le> r" "r \<le> q * (1 + d)" "q * (1 - d) \<le> r"
    unfolding r_def d_def using q(1) by (rule c_double_nonneg, rule c_double_upper, rule c_double_lower)
  have pr0: "0 \<le> p * r" using p(1) r(1) by simp
  have y: "0 \<le> y" "y \<le> p * r * (1 + d)" "p * r * (1 - d) \<le> y"
    unfolding y_def d_def using pr0 by (rule c_double_nonneg, rule c_double_upper, rule c_double_lower)
  define n where "n = p * q"
  have n: "0 \<le> n" "n \<le> 16777216"
  proof -
    show "0 \<le> n" using p(1) q(1) by (simp add: n_def)
    have "p * q \<le> p * 1" using q(2) p(1) by (rule mult_left_mono)
    then show "n \<le> 16777216" using p(2) by (simp add: n_def)
  qed
  have up: "y \<le> n * (1 + d) * (1 + d)"
  proof -
    have "p * r \<le> p * (q * (1 + d))" using r(2) p(1) by (rule mult_left_mono)
    then have "p * r * (1 + d) \<le> p * (q * (1 + d)) * (1 + d)"
      by (rule mult_right_mono) (simp add: d_def)
    with y(2) show ?thesis by (simp add: n_def mult.assoc)
  qed
  have lo: "n * (1 - d) * (1 - d) \<le> y"
  proof -
    have "p * (q * (1 - d)) \<le> p * r" using r(3) p(1) by (rule mult_left_mono)
    then have "p * (q * (1 - d)) * (1 - d) \<le> p * r * (1 - d)"
      by (rule mult_right_mono) (simp add: d_def)
    with y(3) show ?thesis by (simp add: n_def mult.assoc)
  qed
  have e1: "n * (2 * d + d * d) < 1 / 100"
  proof -
    have "n * (2 * d + d * d) \<le> 16777216 * (2 * d + d * d)"
      using n(2) by (rule mult_right_mono) (simp add: d_def)
    also have "\<dots> < 1 / 100" by (simp add: d_def)
    finally show ?thesis .
  qed
  have e2: "n * (2 * d - d * d) < 1 / 100"
  proof -
    have "n * (2 * d - d * d) \<le> 16777216 * (2 * d - d * d)"
      using n(2) by (rule mult_right_mono) (simp add: d_def)
    also have "\<dots> < 1 / 100" by (simp add: d_def)
    finally show ?thesis .
  qed
  have "n * (1 + d) * (1 + d) = n + n * (2 * d + d * d)" by (simp add: algebra_simps)
  with up e1 have yu: "y < n + 1 / 100" by simp
  have "n * (1 - d) * (1 - d) = n - n * (2 * d - d * d)" by (simp add: algebra_simps)
  with lo e2 have yl: "n - 1 / 100 < y" by simp
  have nN: "n = of_int N / 100"
    by (simp add: n_def p_def q_def N_def rat_of_u32_def del: of_int_uint)
  have "N = k * 100 + f" by (simp add: k_def f_def)
  then have nk: "n = of_int k + of_int f / 100"
    unfolding nN by (simp add: add_divide_distrib)
  have f: "0 \<le> f" "f \<le> 99" by (simp_all add: f_def) 
  then have "(of_int 0 :: rat) \<le> of_int f" "(of_int f :: rat) \<le> of_int 99"
    by (simp_all only: of_int_le_iff)
  then have fr: "(0::rat) \<le> of_int f" "(of_int f :: rat) \<le> 99" by simp_all
  have k0: "0 \<le> k" using uint_ge_0 [of P] uint_ge_0 [of D] by (simp add: k_def N_def pos_imp_zdiv_nonneg_iff)
  have kP: "k \<le> uint P"
  proof -
    have "N \<le> uint P * 100" unfolding N_def using D uint_ge_0 [of P] by (rule mult_left_mono)
    then have "N div 100 \<le> uint P * 100 div 100" by (rule zdiv_mono1) simp
    then show ?thesis by (simp add: k_def)
  qed
  have "y < of_int k + 1" using yu fr nk by simp
  then have "y < of_int (k + 1)" by simp
  then have fl_up: "\<lfloor>y\<rfloor> < k + 1" by (simp only: floor_less_iff)
  have "of_int (k - 1) \<le> y" using yl fr nk by simp
  then have fl_lo: "k - 1 \<le> \<lfloor>y\<rfloor>" by (simp only: le_floor_iff)
  have fl_eq: "\<lfloor>y\<rfloor> = k" if "f \<noteq> 0"
  proof -
    have "1 \<le> f" using that f by simp
    then have "(of_int 1 :: rat) \<le> of_int f" by (simp only: of_int_le_iff)
    then have "(1::rat) \<le> of_int f" by simp
    then have "of_int k \<le> y" using yl nk by simp
    then have "k \<le> \<lfloor>y\<rfloor>" by (simp only: le_floor_iff)
    with fl_up show ?thesis by simp
  qed
  have "(of_int (k + 1) :: rat) \<le> of_int (uint P + 1)" using kP by (simp only: of_int_le_iff add_le_cancel_right)
  with \<open>y < of_int (k + 1)\<close> have "y < rat_of_u32 P + 1"
    by (simp add: rat_of_u32_def del: of_int_uint)
  from to_uint32_floor [OF y(1) this] obtain v
    where v: "to_uint32 y = Some v" "uint v = \<lfloor>y\<rfloor>" "v \<le> P" by blast
  have "uint v = k \<or> 100 dvd N"
    using fl_eq v(2) by (auto simp add: f_def dvd_eq_mod_eq_0)
  then show ?thesis
    using v fl_up fl_lo by (simp add: pp flip: N_def k_def)
qed

subsection \<open>The times of a periodic worker\<close>

lemma to_uint32_of_u32: "to_uint32 (rat_of_u32 v) = Some v"
proof -
  have "trunc (rat_of_u32 v) = uint v"
    using uint_ge_0 [of v] by (simp add: trunc_def rat_of_u32_def del: of_int_uint)
  then show ?thesis using uint_u32_bound [of v] by (simp add: to_uint32_def)
qed

lemma periodic_process_zero: "periodic_process P 0 = Some 0"
proof -
  have "rat_of_u32 0 = 0" by (simp add: rat_of_u32_def)
  then have "periodic_process P 0 = to_uint32 (rat_of_u32 0)"
    by (simp add: periodic_process_def c_float_def c_double_def)
  then show ?thesis by (simp only: to_uint32_of_u32)
qed

lemma periodic_process_full:
  assumes "uint P < 16777216"
  shows "periodic_process P 100 = Some P"
proof -
  have h: "rat_of_u32 100 = of_int 100" by (simp add: rat_of_u32_def)
  have "c_float (rat_of_u32 100) = 100" unfolding h by (subst c_float_exact) simp_all
  moreover have "c_double 1 = 1" using c_double_exact [of 1] by simp
  moreover have "c_float (rat_of_u32 P) = rat_of_u32 P"
    unfolding rat_of_u32_def using assms by (intro c_float_exact) simp_all
  moreover have "c_double (rat_of_u32 P) = rat_of_u32 P"
    unfolding rat_of_u32_def using assms by (intro c_double_exact) simp_all
  ultimately have "periodic_process P 100 = to_uint32 (rat_of_u32 P)"
    by (simp add: periodic_process_def)
  then show ?thesis by (simp only: to_uint32_of_u32)
qed

lemma uint_sub_le:
  fixes a b :: u32
  assumes "b \<le> a"
  shows "uint (a - b) = uint a - uint b"
  using assms by (simp add: uint_minus_simple_alt)

text \<open>
  Claim C4, as the code has it. For every period \<open>P\<close> below \<open>2 ^ 24\<close> (so that the conversion
  to \<open>float\<close> is exact) and every duty cycle \<open>D \<le> 100\<close>, the two times are defined,
  \<open>sleep = P - process\<close> without wrap-around, and \<open>process\<close> is \<open>P * D div 100\<close>, or one less
  than that when \<open>100\<close> divides \<open>P * D\<close> (the quotient \<open>D / 100\<close> is rounded before the
  product is taken); \<open>D = 0\<close> gives \<open>process = 0\<close> and \<open>sleep = P\<close>, \<open>D = 100\<close> gives
  \<open>process = P\<close> and \<open>sleep = 0\<close>.
\<close>

theorem periodic_times_small:
  assumes "uint P < 16777216" and "uint D \<le> 100"
  shows "\<exists>sleep process. periodic_times P D = Some (sleep, process)
           \<and> sleep = P - process \<and> uint sleep = uint P - uint process
           \<and> (uint process = uint P * uint D div 100
                \<or> (100 dvd uint P * uint D \<and> uint process = uint P * uint D div 100 - 1))
           \<and> (D = 0 \<longrightarrow> process = 0 \<and> sleep = P)
           \<and> (D = 100 \<longrightarrow> process = P \<and> sleep = 0)"
proof -
  from periodic_process_bounds [OF assms] obtain pr
    where pr: "periodic_process P D = Some pr" "pr \<le> P"
      "uint pr \<le> uint P * uint D div 100" "uint P * uint D div 100 - 1 \<le> uint pr"
      "uint pr = uint P * uint D div 100 \<or> 100 dvd uint P * uint D"
    by blast
  have t: "periodic_times P D = Some (P - pr, pr)" by (simp add: periodic_times_def pr(1))
  have s: "uint (P - pr) = uint P - uint pr" using pr(2) by (rule uint_sub_le)
  have v: "uint pr = uint P * uint D div 100
           \<or> (100 dvd uint P * uint D \<and> uint pr = uint P * uint D div 100 - 1)"
    using pr(3,4,5) by linarith
  have z: "pr = 0" if "D = 0"
    using pr(1) periodic_process_zero [of P] that by simp
  have f: "pr = P" if "D = 100"
    using pr(1) periodic_process_full [OF assms(1)] that by simp
  show ?thesis using t s v z f by simp
qed

theorem periodic_times_small_witness:
  "uint (1000 :: u32) < 16777216 \<and> uint (10 :: u32) \<le> 100
   \<and> periodic_times 1000 10 = Some (900, 100)
   \<and> periodic_times 16777215 100 = Some (0, 16777215)
   \<and> periodic_times 16777215 0 = Some (16777215, 0)"
proof -
  have a: "uint (1000 :: u32) < 16777216" "uint (10 :: u32) \<le> 100" by simp_all
  have b: "uint (16777215 :: u32) < 16777216" "uint (100 :: u32) \<le> 100" "uint (0 :: u32) \<le> 100" by simp_all
  have c: "periodic_times 1000 10 = Some (900, 100)" by code_simp
  show ?thesis
    using a c periodic_times_small [OF a] periodic_times_small [OF b(1) b(2)]
      periodic_times_small [OF b(1) b(3)]
    by auto
qed

text \<open>
  The processing time is not always \<open>P * D div 100\<close>: for \<open>P = 100\<close> and \<open>D = 29\<close> the
  double nearest to \<open>0.29\<close> is below \<open>0.29\<close>, the product rounds to a double below \<open>29\<close>,
  and the conversion truncates it to \<open>28\<close>.
\<close>

theorem periodic_process_truncation_counterexample:
  "uint (29 :: u32) \<le> 100 \<and> periodic_times 100 29 = Some (72, 28)
   \<and> (100 * 29 div 100 :: u32) = 29"
  by code_simp

text \<open>
  Claim C10. For a period \<open>P\<close> and a duty cycle \<open>D \<le> 100\<close> the processing time is said never to
  exceed \<open>P\<close>, so that \<open>sleep = P - process\<close> never wraps. The code breaks this for a period
  that \<open>float\<close> cannot hold: \<open>(float) 16777219\<close> is \<open>16777220\<close>, so with \<open>D = 100\<close> the
  processing time is \<open>16777220\<close>, one more than the period, and the sleep time wraps to
  \<open>4294967295\<close> microseconds.
\<close>

theorem periodic_sleep_wraps:
  "launched_main (wlg_main (\<lambda>n. Pthread_ok) [(CHR ''p'', ''1,16777219,100'')] 0 0)
     = [(0, \<lparr>wid = 1, pid = 0, kind = WORKER_PERIODC, params = Period 16777219 100\<rparr>)]
   \<and> uint (100 :: u32) \<le> 100
   \<and> c_float (rat_of_u32 16777219) = 16777220
   \<and> periodic_times 16777219 100 = Some (4294967295, 16777220)
   \<and> worker_periodic \<lparr>wid = 1, pid = 77, kind = WORKER_PERIODC, params = Period 16777219 100\<rparr>
        \<lparr>start_ts = \<lparr>tv_sec = 10, tv_nsec = 0\<rparr>,
         clock = [\<lparr>tv_sec = 10, tv_nsec = 0\<rparr>, \<lparr>tv_sec = 20, tv_nsec = 0\<rparr>,
                  \<lparr>tv_sec = 26, tv_nsec = 777220000\<rparr>],
         rnd = [], trace = []\<rparr>
     = Inr \<lparr>start_ts = \<lparr>tv_sec = 10, tv_nsec = 0\<rparr>, clock = [], rnd = [],
            trace = [Usleep 4294967295, Busy_loop]\<rparr>"
  by code_simp

subsection \<open>The delay of an interactive worker\<close>

lemma process_for_trace:
  "process_for p w = Inr w' \<Longrightarrow> \<exists>n. trace w' = trace w @ replicate n Busy_loop"
  by (auto simp add: process_for_def emit_def split: list.splits option.splits)

text \<open>
  Claim C5. For every value \<open>r\<close> in \<open>[0, RAND_MAX]\<close> that \<open>random()\<close> can return,
  \<open>normal_random imax\<close> is defined and lies in \<open>[0, imax]\<close>; hence the delay an interactive
  worker hands to \<open>usleep\<close> in one invocation (the only sleep of the invocation) never
  exceeds its \<open>interval_max\<close>.
\<close>

theorem interactive_sleep_bounded:
  "(0 \<le> sint r \<and> sint r \<le> RAND_MAX \<longrightarrow> (\<exists>v. normal_random imax r = Some v \<and> v \<le> imax))
   \<and> ((\<forall>x \<in> set (rnd w). 0 \<le> sint x \<and> sint x \<le> RAND_MAX) \<and> params wd = Interrupt imax dmax
        \<and> worker_interactive wd w = Inr w'
        \<longrightarrow> (\<exists>delay n. delay \<le> imax
               \<and> trace w' = trace w @ Usleep delay # replicate n Busy_loop))"
proof (intro conjI impI)
  assume "0 \<le> sint r \<and> sint r \<le> RAND_MAX"
  then show "\<exists>v. normal_random imax r = Some v \<and> v \<le> imax"
    by (simp add: normal_random_value)
next
  assume a: "(\<forall>x \<in> set (rnd w). 0 \<le> sint x \<and> sint x \<le> RAND_MAX) \<and> params wd = Interrupt imax dmax
        \<and> worker_interactive wd w = Inr w'"
  then have p: "words (params wd) = Some (imax, dmax)" by simp
  from a p obtain r1 rs1 where r: "rnd w = r1 # rs1"
    by (cases "rnd w") (simp_all add: worker_interactive_def)
  from a r have "0 \<le> sint r1" "sint r1 \<le> RAND_MAX" by simp_all
  from normal_random_value [OF this, of imax] obtain delay
    where d: "normal_random imax r1 = Some delay" "delay \<le> imax" by blast
  from a p r d obtain process rs
    where "process_for process (emit [Usleep delay] (w\<lparr>rnd := rs\<rparr>)) = Inr w'"
    by (auto simp add: worker_interactive_def split: option.splits list.splits)
  from process_for_trace [OF this] obtain n
    where "trace w' = trace w @ Usleep delay # replicate n Busy_loop"
    by (auto simp add: emit_def)
  with d(2) show "\<exists>delay n. delay \<le> imax
      \<and> trace w' = trace w @ Usleep delay # replicate n Busy_loop"
    by auto
qed

theorem interactive_sleep_bounded_witness:
  "normal_random 1000 2147483647 = Some 1000
   \<and> worker_interactive \<lparr>wid = 1, pid = 77, kind = WORKER_INTERACTIVE, params = Interrupt 1000 500\<rparr>
        \<lparr>start_ts = \<lparr>tv_sec = 0, tv_nsec = 0\<rparr>,
         clock = [\<lparr>tv_sec = 10, tv_nsec = 0\<rparr>, \<lparr>tv_sec = 10, tv_nsec = 100000\<rparr>,
                  \<lparr>tv_sec = 10, tv_nsec = 250000\<rparr>, \<lparr>tv_sec = 10, tv_nsec = 300000\<rparr>],
         rnd = [2147483647, 1073741824, 5], trace = []\<rparr>
     = Inr \<lparr>start_ts = \<lparr>tv_sec = 0, tv_nsec = 0\<rparr>,
            clock = [\<lparr>tv_sec = 10, tv_nsec = 300000\<rparr>], rnd = [5],
            trace = [Usleep 1000, Busy_loop]\<rparr>
   \<and> (\<exists>v. normal_random 1000 2147483647 = Some v \<and> v \<le> 1000)
   \<and> (\<exists>delay n. delay \<le> (1000 :: u32) \<and> [Usleep 1000, Busy_loop] = Usleep delay # replicate n Busy_loop)"
proof -
  let ?wd = "\<lparr>wid = 1, pid = 77, kind = WORKER_INTERACTIVE, params = Interrupt 1000 500\<rparr>"
  let ?w = "\<lparr>start_ts = \<lparr>tv_sec = 0, tv_nsec = 0\<rparr>,
         clock = [\<lparr>tv_sec = 10, tv_nsec = 0\<rparr>, \<lparr>tv_sec = 10, tv_nsec = 100000\<rparr>,
                  \<lparr>tv_sec = 10, tv_nsec = 250000\<rparr>, \<lparr>tv_sec = 10, tv_nsec = 300000\<rparr>],
         rnd = [2147483647, 1073741824, 5], trace = []\<rparr>"
  let ?w' = "\<lparr>start_ts = \<lparr>tv_sec = 0, tv_nsec = 0\<rparr>,
            clock = [\<lparr>tv_sec = 10, tv_nsec = 300000\<rparr>], rnd = [5 :: s64],
            trace = [Usleep 1000, Busy_loop]\<rparr>"
  have v: "normal_random 1000 2147483647 = Some 1000" by code_simp
  have r: "worker_interactive ?wd ?w = Inr ?w'" by code_simp
  have h: "\<forall>x \<in> set (rnd ?w). 0 \<le> sint x \<and> sint x \<le> RAND_MAX"
    by (simp add: RAND_MAX_def)
  have h1: "0 \<le> sint (2147483647 :: s64) \<and> sint (2147483647 :: s64) \<le> RAND_MAX"
    by (simp add: RAND_MAX_def)
  from interactive_sleep_bounded [of 2147483647 1000 ?w ?wd 500 ?w'] h h1 r v
  show ?thesis by simp
qed

section \<open>Properties of the setup\<close>

lemma parse_cmdline_append:
  "parse_cmdline c (xs @ ys) =
     (case parse_cmdline c xs of Inl e \<Rightarrow> Inl e | Inr c1 \<Rightarrow> parse_cmdline c1 ys)"
proof (induction xs arbitrary: c)
  case Nil
  then show ?case by simp
next
  case (Cons x xs)
  obtain opt optarg where x: "x = (opt, optarg)" by (cases x)
  show ?case unfolding x using Cons.IH by (simp split: option.splits)
qed

lemma alloc_batch_valid:
  "all_valid (workers st) \<Longrightarrow> all_valid (launched (alloc_batch env n i st))"
proof (induction n arbitrary: i st)
  case 0
  then show ?case by (simp add: launched_def)
next
  case (Suc n)
  let ?wd = "\<lparr>wid = of_nat (i + 1), pid = 0, kind = WORKER_BATCH, params = Unset\<rparr>"
  show ?case
  proof (cases "create_worker env (unat (var_w st) + i) ?wd st")
    case (Inl h)
    then show ?thesis using Suc.prems
      by (auto simp add: launched_def create_worker_def split: pthread_result.splits)
  next
    case (Inr st1)
    then have "workers st1 = workers st @ [(unat (var_w st) + i, ?wd)]"
      by (auto simp add: create_worker_def split: pthread_result.splits)
    then have "all_valid (workers st1)" using Suc.prems by (simp add: all_valid_def)
    from Suc.IH [OF this] show ?thesis using Inr by simp
  qed
qed

lemma alloc_interactive_valid:
  "all_valid (workers st) \<Longrightarrow> all_valid (launched (alloc_interactive env n i sp st))"
proof (induction n arbitrary: i sp st)
  case 0
  then show ?case by (simp add: launched_def)
next
  case (Suc n)
  show ?case
  proof (cases "read_param sp (var_p1 st)")
    case (Inl e)
    then show ?thesis using Suc.prems by (simp add: launched_def)
  next
    case a: (Inr r1)
    obtain v1 sp1 where r1: "r1 = (v1, sp1)" by (cases r1)
    show ?thesis
    proof (cases "read_param sp1 (var_p2 st)")
      case (Inl e)
      then show ?thesis using Suc.prems a r1 by (simp add: launched_def)
    next
      case b: (Inr r2)
      obtain v2 sp2 where r2: "r2 = (v2, sp2)" by (cases r2)
      let ?wd = "\<lparr>wid = of_nat (i + 1), pid = 0, kind = WORKER_INTERACTIVE, params = Interrupt v1 v2\<rparr>"
      let ?st = "st\<lparr>var_p1 := v1, var_p2 := v2\<rparr>"
      show ?thesis
      proof (cases "create_worker env (unat (var_w st) + i) ?wd ?st")
        case (Inl h)
        then show ?thesis using Suc.prems a b r1 r2
          by (auto simp add: launched_def create_worker_def split: pthread_result.splits)
      next
        case (Inr st1)
        then have "workers st1 = workers st @ [(unat (var_w st) + i, ?wd)]"
          by (auto simp add: create_worker_def split: pthread_result.splits)
        then have "all_valid (workers st1)" using Suc.prems by (simp add: all_valid_def)
        from Suc.IH [OF this] show ?thesis using Inr a b r1 r2 by simp
      qed
    qed
  qed
qed

lemma alloc_periodic_valid:
  "all_valid (workers st) \<Longrightarrow> all_valid (launched (alloc_periodic env n i sp st))"
proof (induction n arbitrary: i sp st)
  case 0
  then show ?case by (simp add: launched_def)
next
  case (Suc n)
  show ?case
  proof (cases "read_param sp (var_p1 st)")
    case (Inl e)
    then show ?thesis using Suc.prems by (simp add: launched_def)
  next
    case a: (Inr r1)
    obtain v1 sp1 where r1: "r1 = (v1, sp1)" by (cases r1)
    show ?thesis
    proof (cases "read_param sp1 (var_p2 st)")
      case (Inl e)
      then show ?thesis using Suc.prems a r1 by (simp add: launched_def)
    next
      case b: (Inr r2)
      obtain v2 sp2 where r2: "r2 = (v2, sp2)" by (cases r2)
      let ?wd = "\<lparr>wid = of_nat (i + 1), pid = 0, kind = WORKER_PERIODC, params = Period v1 v2\<rparr>"
      let ?st = "st\<lparr>var_p1 := v1, var_p2 := v2\<rparr>"
      show ?thesis
      proof (cases "100 < v2")
        case True
        then show ?thesis using Suc.prems a b r1 r2 by (simp add: launched_def)
      next
        case False
        show ?thesis
        proof (cases "create_worker env (unat (var_w st) + i) ?wd ?st")
          case (Inl h)
          then show ?thesis using Suc.prems a b r1 r2 False
            by (auto simp add: launched_def create_worker_def split: pthread_result.splits)
        next
          case (Inr st1)
          then have "workers st1 = workers st @ [(unat (var_w st) + i, ?wd)]"
            by (auto simp add: create_worker_def split: pthread_result.splits)
          then have "all_valid (workers st1)" using Suc.prems False by (simp add: all_valid_def)
          from Suc.IH [OF this] show ?thesis using Inr a b r1 r2 False by simp
        qed
      qed
    qed
  qed
qed

lemma alloc_yield_valid:
  "all_valid (workers st) \<Longrightarrow> all_valid (launched (alloc_yield env n i sp st))"
proof (induction n arbitrary: i sp st)
  case 0
  then show ?case by (simp add: launched_def)
next
  case (Suc n)
  show ?case
  proof (cases "read_param sp (var_p1 st)")
    case (Inl e)
    then show ?thesis using Suc.prems by (simp add: launched_def)
  next
    case a: (Inr r1)
    obtain v1 sp1 where r1: "r1 = (v1, sp1)" by (cases r1)
    show ?thesis
    proof (cases "read_param sp1 (var_p2 st)")
      case (Inl e)
      then show ?thesis using Suc.prems a r1 by (simp add: launched_def)
    next
      case b: (Inr r2)
      obtain v2 sp2 where r2: "r2 = (v2, sp2)" by (cases r2)
      let ?wd = "\<lparr>wid = of_nat (i + 1), pid = 0, kind = WORKER_YIELD, params = Yield v1 v2\<rparr>"
      let ?st = "st\<lparr>var_p1 := v1, var_p2 := v2\<rparr>"
      show ?thesis
      proof (cases "v1 < v2")
        case True
        then show ?thesis using Suc.prems a b r1 r2 by (simp add: launched_def)
      next
        case False
        show ?thesis
        proof (cases "create_worker env (unat (var_w st) + i) ?wd ?st")
          case (Inl h)
          then show ?thesis using Suc.prems a b r1 r2 False
            by (auto simp add: launched_def create_worker_def split: pthread_result.splits)
        next
          case (Inr st1)
          then have "workers st1 = workers st @ [(unat (var_w st) + i, ?wd)]"
            by (auto simp add: create_worker_def split: pthread_result.splits)
          then have "all_valid (workers st1)" using Suc.prems False by (simp add: all_valid_def)
          from Suc.IH [OF this] show ?thesis using Inr a b r1 r2 False by simp
        qed
      qed
    qed
  qed
qed

lemma launched_Inr [simp]: "launched (Inr st) = workers st"
  by (simp add: launched_def)

lemma setup_workers_valid: "all_valid (launched (setup_workers env c p1_0 p2_0))"
proof -
  let ?s0 = "\<lparr>var_p1 = p1_0, var_p2 = p2_0, var_w = 0, workers = []\<rparr>"
  have v0: "all_valid (workers ?s0)" by (simp add: all_valid_def)
  note vb = alloc_batch_valid [OF v0, of env "unat (conf_bw c)" 0]
  show ?thesis
  proof (cases "alloc_batch env (unat (conf_bw c)) 0 ?s0")
    case (Inl h)
    then show ?thesis using vb by (simp add: setup_workers_def launched_def)
  next
    case sb: (Inr sb)
    let ?sb = "sb\<lparr>var_w := var_w sb + conf_bw c\<rparr>"
    have "all_valid (workers ?sb)" using vb sb by simp
    note vi = alloc_interactive_valid [OF this, of env "unat (conf_iw c)" 0 "snd (strsep (conf_iparams c))"]
    show ?thesis
    proof (cases "alloc_interactive env (unat (conf_iw c)) 0 (snd (strsep (conf_iparams c))) ?sb")
      case (Inl h)
      then show ?thesis using vi sb by (simp add: setup_workers_def launched_def)
    next
      case si: (Inr si)
      let ?si = "si\<lparr>var_w := var_w si + conf_iw c\<rparr>"
      have "all_valid (workers ?si)" using vi si by simp
      note vp = alloc_periodic_valid [OF this, of env "unat (conf_pw c)" 0 "snd (strsep (conf_pparams c))"]
      show ?thesis
      proof (cases "alloc_periodic env (unat (conf_pw c)) 0 (snd (strsep (conf_pparams c))) ?si")
        case (Inl h)
        then show ?thesis using vp sb si by (simp add: setup_workers_def launched_def)
      next
        case sp: (Inr sp)
        let ?sp = "sp\<lparr>var_w := var_w sp + conf_pw c\<rparr>"
        have "all_valid (workers ?sp)" using vp sp by simp
        note vy = alloc_yield_valid [OF this, of env "unat (conf_yw c)" 0 "snd (strsep (conf_yparams c))"]
        show ?thesis
        proof (cases "alloc_yield env (unat (conf_yw c)) 0 (snd (strsep (conf_yparams c))) ?sp")
          case (Inl h)
          then show ?thesis using vy sb si sp by (simp add: setup_workers_def launched_def)
        next
          case (Inr sy)
          then show ?thesis using vy sb si sp by (simp add: setup_workers_def)
        qed
      qed
    qed
  qed
qed

lemma wlg_main_valid: "all_valid (launched_main (wlg_main env opts p1_0 p2_0))"
proof (cases "parse_cmdline conf_init opts")
  case (Inl e)
  then show ?thesis by (simp add: wlg_main_def launched_main_def all_valid_def)
next
  case (Inr c)
  then show ?thesis
    using setup_workers_valid [of env c p1_0 p2_0]
    by (cases "setup_workers env c p1_0 p2_0") (auto simp add: wlg_main_def launched_main_def launched_def)
qed

lemma alloc_yield_extends:
  "\<exists>ws. launched (alloc_yield env n i sp st) = workers st @ ws"
proof (induction n arbitrary: i sp st)
  case 0
  then show ?case by simp
next
  case (Suc n)
  show ?case
  proof (cases "read_param sp (var_p1 st)")
    case (Inl e)
    then show ?thesis by (simp add: launched_def)
  next
    case a: (Inr r1)
    obtain v1 sp1 where r1: "r1 = (v1, sp1)" by (cases r1)
    show ?thesis
    proof (cases "read_param sp1 (var_p2 st)")
      case (Inl e)
      then show ?thesis using a r1 by (simp add: launched_def)
    next
      case b: (Inr r2)
      obtain v2 sp2 where r2: "r2 = (v2, sp2)" by (cases r2)
      let ?wd = "\<lparr>wid = of_nat (i + 1), pid = 0, kind = WORKER_YIELD, params = Yield v1 v2\<rparr>"
      let ?st = "st\<lparr>var_p1 := v1, var_p2 := v2\<rparr>"
      show ?thesis
      proof (cases "v1 < v2")
        case True
        then show ?thesis using a b r1 r2 by (simp add: launched_def)
      next
        case False
        show ?thesis
        proof (cases "create_worker env (unat (var_w st) + i) ?wd ?st")
          case (Inl h)
          then show ?thesis using a b r1 r2 False
            by (auto simp add: launched_def create_worker_def split: pthread_result.splits)
        next
          case (Inr st1)
          then have "workers st1 = workers st @ [(unat (var_w st) + i, ?wd)]"
            by (auto simp add: create_worker_def split: pthread_result.splits)
          with Suc.IH [of "Suc i" sp2 st1] show ?thesis using Inr a b r1 r2 False by auto
        qed
      qed
    qed
  qed
qed

text \<open>
  Claim C7. When the parameters read for a yield worker are the period \<open>P\<close> and the interval
  \<open>I\<close>: if \<open>I > P\<close> the process exits with \<open>exit(-1)\<close>, a non-zero status, and no worker is
  launched for them; if \<open>I = P\<close> (and the thread can be made) the worker is launched with
  these parameters. No run of \<open>main\<close> ever launches a yield worker whose interval exceeds
  its period.
\<close>

theorem yield_interval_checked:
  "(read_param sp (var_p1 st) = Inr (P, sp1) \<and> read_param sp1 (var_p2 st) = Inr (I, sp2) \<and> P < I
      \<longrightarrow> alloc_yield env (Suc n) i sp st = Inl (Exit (- 1), workers st) \<and> exit_status (- 1) \<noteq> 0)
   \<and> (read_param sp (var_p1 st) = Inr (P, sp1) \<and> read_param sp1 (var_p2 st) = Inr (P, sp2)
        \<and> env (length (workers st)) = Pthread_ok
      \<longrightarrow> (\<exists>ws. launched (alloc_yield env (Suc n) i sp st) =
                 workers st @ (unat (var_w st) + i,
                   \<lparr>wid = of_nat (i + 1), pid = 0, kind = WORKER_YIELD, params = Yield P P\<rparr>) # ws))
   \<and> (\<forall>(slot, wd) \<in> set (launched_main (wlg_main env opts p1_0 p2_0)).
         \<forall>Q J. params wd = Yield Q J \<longrightarrow> J \<le> Q)"
proof (intro conjI impI)
  assume "read_param sp (var_p1 st) = Inr (P, sp1) \<and> read_param sp1 (var_p2 st) = Inr (I, sp2) \<and> P < I"
  then show "alloc_yield env (Suc n) i sp st = Inl (Exit (- 1), workers st)" by simp
next
  show "exit_status (- 1) \<noteq> 0" by (simp add: exit_status_def)
next
  let ?wd = "\<lparr>wid = of_nat (i + 1), pid = 0, kind = WORKER_YIELD, params = Yield P P\<rparr>"
  let ?st = "st\<lparr>var_p1 := P, var_p2 := P, workers := workers st @ [(unat (var_w st) + i, ?wd)]\<rparr>"
  assume a: "read_param sp (var_p1 st) = Inr (P, sp1) \<and> read_param sp1 (var_p2 st) = Inr (P, sp2)
        \<and> env (length (workers st)) = Pthread_ok"
  then have "alloc_yield env (Suc n) i sp st = alloc_yield env n (Suc i) sp2 ?st"
    by (simp add: create_worker_def)
  moreover obtain ws where "launched (alloc_yield env n (Suc i) sp2 ?st) = workers ?st @ ws"
    using alloc_yield_extends by blast
  ultimately show "\<exists>ws. launched (alloc_yield env (Suc n) i sp st) = workers st @ (unat (var_w st) + i, ?wd) # ws"
    by simp
next
  show "\<forall>(slot, wd) \<in> set (launched_main (wlg_main env opts p1_0 p2_0)).
         \<forall>Q J. params wd = Yield Q J \<longrightarrow> J \<le> Q"
    using wlg_main_valid [of env opts p1_0 p2_0]
    by (auto simp add: all_valid_def list_all_iff)
qed

text \<open>
  Claim C6, as the code has it. A count that \<open>sscanf\<close> cannot convert (options \<open>-b\<close>, \<open>-i\<close>,
  \<open>-p\<close>, \<open>-y\<close>) ends the process with \<open>exit(-1)\<close>, status 255, before any worker is
  launched. A duty cycle above 100 ends the process with \<open>exit(-1)\<close> at the moment that
  periodic worker is set up: neither it nor any later worker is launched, the workers set
  up before it have been launched already. No run of \<open>main\<close> ever launches a periodic
  worker with a duty cycle above 100.
\<close>

theorem config_errors_exit:
  "(parse_cmdline conf_init pre = Inr c \<and> opt \<in> {CHR ''b'', CHR ''i'', CHR ''p'', CHR ''y''}
        \<and> sscanf_hhu optarg = None
      \<longrightarrow> wlg_main env (pre @ (opt, optarg) # post) p1_0 p2_0 = Inl (Exit (- 1), []))
   \<and> (read_param sp (var_p1 st) = Inr (P, sp1) \<and> read_param sp1 (var_p2 st) = Inr (D, sp2) \<and> 100 < D
      \<longrightarrow> alloc_periodic env (Suc n) i sp st = Inl (Exit (- 1), workers st))
   \<and> exit_status (- 1) = 255
   \<and> (\<forall>(slot, wd) \<in> set (launched_main (wlg_main env opts p1_0 p2_0)).
         \<forall>Q E. params wd = Period Q E \<longrightarrow> E \<le> 100)"
proof (intro conjI impI)
  assume a: "parse_cmdline conf_init pre = Inr c \<and> opt \<in> {CHR ''b'', CHR ''i'', CHR ''p'', CHR ''y''}
        \<and> sscanf_hhu optarg = None"
  then have "parse_cmdline c ((opt, optarg) # post) = Inl (Exit (- 1))" by auto
  with a have "parse_cmdline conf_init (pre @ (opt, optarg) # post) = Inl (Exit (- 1))"
    by (simp add: parse_cmdline_append)
  then show "wlg_main env (pre @ (opt, optarg) # post) p1_0 p2_0 = Inl (Exit (- 1), [])"
    by (simp add: wlg_main_def)
next
  assume "read_param sp (var_p1 st) = Inr (P, sp1) \<and> read_param sp1 (var_p2 st) = Inr (D, sp2) \<and> 100 < D"
  then show "alloc_periodic env (Suc n) i sp st = Inl (Exit (- 1), workers st)" by simp
next
  show "exit_status (- 1) = 255" by (simp add: exit_status_def)
next
  show "\<forall>(slot, wd) \<in> set (launched_main (wlg_main env opts p1_0 p2_0)).
         \<forall>Q E. params wd = Period Q E \<longrightarrow> E \<le> 100"
    using wlg_main_valid [of env opts p1_0 p2_0]
    by (auto simp add: all_valid_def list_all_iff)
qed

theorem yield_interval_checked_witness:
  "alloc_yield (\<lambda>n. Pthread_ok) (Suc 0) 0 (Some ''1000,1001'')
       \<lparr>var_p1 = 0, var_p2 = 0, var_w = 0, workers = []\<rparr> = Inl (Exit (- 1), [])
   \<and> exit_status (- 1) \<noteq> 0
   \<and> (\<exists>ws. launched (alloc_yield (\<lambda>n. Pthread_ok) (Suc 0) 0 (Some ''1000,1000'')
                 \<lparr>var_p1 = 0, var_p2 = 0, var_w = 0, workers = []\<rparr>)
           = (0, \<lparr>wid = 1, pid = 0, kind = WORKER_YIELD, params = Yield 1000 1000\<rparr>) # ws)
   \<and> wlg_main (\<lambda>n. Pthread_ok) [(CHR ''y'', ''1,1000,1001'')] 0 0 = Inl (Exit (- 1), [])
   \<and> launched_main (wlg_main (\<lambda>n. Pthread_ok) [(CHR ''y'', ''1,1000,1000'')] 0 0)
       = [(0, \<lparr>wid = 1, pid = 0, kind = WORKER_YIELD, params = Yield 1000 1000\<rparr>)]"
proof -
  let ?st = "\<lparr>var_p1 = 0, var_p2 = 0, var_w = 0, workers = []\<rparr>"
  let ?env = "\<lambda>n :: nat. Pthread_ok"
  have r1: "read_param (Some ''1000,1001'') (var_p1 ?st) = Inr (1000, Some ''1001'')"
    and r2: "read_param (Some ''1001'') (var_p2 ?st) = Inr (1001, None)"
    and r3: "read_param (Some ''1000,1000'') (var_p1 ?st) = Inr (1000, Some ''1000'')"
    and r4: "read_param (Some ''1000'') (var_p2 ?st) = Inr (1000, None)"
    by code_simp+
  have m1: "wlg_main ?env [(CHR ''y'', ''1,1000,1001'')] 0 0 = Inl (Exit (- 1), [])"
    by code_simp
  have m2: "launched_main (wlg_main ?env [(CHR ''y'', ''1,1000,1000'')] 0 0)
       = [(0, \<lparr>wid = 1, pid = 0, kind = WORKER_YIELD, params = Yield 1000 1000\<rparr>)]"
    by code_simp
  from yield_interval_checked [where sp = "Some ''1000,1001''" and st = ?st and P = 1000
      and ?sp1.0 = "Some ''1001''" and I = 1001 and ?sp2.0 = None and env = ?env and n = 0 and i = 0]
    r1 r2
  have a: "alloc_yield ?env (Suc 0) 0 (Some ''1000,1001'') ?st = Inl (Exit (- 1), [])"
    "exit_status (- 1) \<noteq> 0"
    by simp_all
  from yield_interval_checked [where sp = "Some ''1000,1000''" and st = ?st and P = 1000
      and ?sp1.0 = "Some ''1000''" and ?sp2.0 = None and env = ?env and n = 0 and i = 0]
    r3 r4
  have b: "\<exists>ws. launched (alloc_yield ?env (Suc 0) 0 (Some ''1000,1000'') ?st)
           = (0, \<lparr>wid = 1, pid = 0, kind = WORKER_YIELD, params = Yield 1000 1000\<rparr>) # ws"
    by simp
  show ?thesis using a b m1 m2 by simp
qed

theorem config_errors_exit_witness:
  "parse_cmdline conf_init [(CHR ''d'', ''3'')] = Inr (conf_init\<lparr>conf_td := 3\<rparr>)
   \<and> sscanf_hhu ''x,1000,10'' = None
   \<and> wlg_main (\<lambda>n. Pthread_ok) [(CHR ''d'', ''3''), (CHR ''p'', ''x,1000,10''), (CHR ''b'', ''1'')] 0 0
       = Inl (Exit (- 1), [])
   \<and> alloc_periodic (\<lambda>n. Pthread_ok) (Suc 0) 0 (Some ''1000,150'')
        \<lparr>var_p1 = 0, var_p2 = 0, var_w = 1,
           workers = [(0, \<lparr>wid = 1, pid = 0, kind = WORKER_BATCH, params = Unset\<rparr>)]\<rparr>
       = Inl (Exit (- 1), [(0, \<lparr>wid = 1, pid = 0, kind = WORKER_BATCH, params = Unset\<rparr>)])
   \<and> wlg_main (\<lambda>n. Pthread_ok) [(CHR ''p'', ''1,1000,150'')] 0 0 = Inl (Exit (- 1), [])
   \<and> exit_status (- 1) = 255"
proof -
  let ?st = "\<lparr>var_p1 = 0, var_p2 = 0, var_w = 1,
           workers = [(0, \<lparr>wid = 1, pid = 0, kind = WORKER_BATCH, params = Unset\<rparr>)]\<rparr>"
  let ?env = "\<lambda>n :: nat. Pthread_ok"
  have p: "parse_cmdline conf_init [(CHR ''d'', ''3'')] = Inr (conf_init\<lparr>conf_td := 3\<rparr>)"
    by code_simp
  have s: "sscanf_hhu ''x,1000,10'' = None" by code_simp
  have r1: "read_param (Some ''1000,150'') (var_p1 ?st) = Inr (1000, Some ''150'')"
    and r2: "read_param (Some ''150'') (var_p2 ?st) = Inr (150, None)"
    by code_simp+
  have m: "wlg_main ?env [(CHR ''p'', ''1,1000,150'')] 0 0 = Inl (Exit (- 1), [])"
    by code_simp
  from config_errors_exit [where pre = "[(CHR ''d'', ''3'')]" and c = "conf_init\<lparr>conf_td := 3\<rparr>"
      and opt = "CHR ''p''" and optarg = "''x,1000,10''" and post = "[(CHR ''b'', ''1'')]"
      and env = ?env and ?p1_0.0 = 0 and ?p2_0.0 = 0
      and sp = "Some ''1000,150''" and st = ?st and P = 1000 and ?sp1.0 = "Some ''150''"
      and D = 150 and ?sp2.0 = None and n = 0 and i = 0]
    p s r1 r2 m
  show ?thesis by simp
qed

text \<open>
  With \<open>-b 1 -p 1,1000,150\<close> the process exits on the duty cycle of 150 after the batch
  worker has been launched.
\<close>

theorem exit_after_launch_counterexample:
  "wlg_main (\<lambda>n. Pthread_ok) [(CHR ''b'', ''1''), (CHR ''p'', ''1,1000,150'')] 0 0
     = Inl (Exit (- 1), [(0, \<lparr>wid = 1, pid = 0, kind = WORKER_BATCH, params = Unset\<rparr>)])"
  by code_simp

text \<open>
  A duration that \<open>sscanf\<close> cannot convert is reported and otherwise ignored: the case
  \<open>'d'\<close> of \<open>parse_cmdline\<close> has no \<open>goto exit_error\<close>, and the run goes on with the
  duration it had.
\<close>

lemma malformed_duration_ignored:
  "sscanf_hhu optarg = None \<Longrightarrow>
   parse_cmdline c ((CHR ''d'', optarg) # next_opts) = parse_cmdline c next_opts"
  by simp

lemma malformed_duration_run:
  "sscanf_hhu ''x'' = None
   \<and> launched_main (wlg_main (\<lambda>n. Pthread_ok) [(CHR ''d'', ''x''), (CHR ''b'', ''1'')] 0 0)
       = [(0, \<lparr>wid = 1, pid = 0, kind = WORKER_BATCH, params = Unset\<rparr>)]"
  by code_simp

section \<open>Properties of the worker thread\<close>

lemma worker_loop_stop:
  "clock w = now_ts # rest \<Longrightarrow> timespec_older now_ts end_ts \<noteq> 0 \<Longrightarrow>
   worker_loop wd end_ts w = Inr ([now_ts], w\<lparr>clock := rest\<rparr>)"
  by (subst worker_loop.simps) simp

lemma worker_loop_step:
  "clock w = now_ts # rest \<Longrightarrow> timespec_older now_ts end_ts = 0 \<Longrightarrow>
   worker_loop wd end_ts w =
     (case do_workload wd (w\<lparr>clock := rest\<rparr>) of
        Inl f \<Rightarrow> Inl f
      | Inr w1 \<Rightarrow>
          (case worker_loop wd end_ts w1 of
             Inl f \<Rightarrow> Inl f
           | Inr (ss, w2) \<Rightarrow> Inr (now_ts # ss, w2)))"
  by (subst worker_loop.simps) simp

text \<open>
  The two directions of the driver loop: what it returns is a run of iterations whose
  samples are all before the deadline but the last; and every such run of iterations is
  what the loop returns, so the loop does stop at the first sample at or after the deadline.
\<close>

lemma worker_loop_samples:
  "worker_loop wd end_ts w = Inr (ss, w') \<Longrightarrow>
   \<exists>before s. ss = before @ [s]
     \<and> (\<forall>b \<in> set before. timespec_older b end_ts = 0)
     \<and> timespec_older s end_ts \<noteq> 0
     \<and> run_iterations wd (length before) w = Inr (ss, w')"
proof (induction wd end_ts w arbitrary: ss w' rule: worker_loop.induct)
  case (1 wd end_ts w)
  from "1.prems" obtain now_ts rest where c: "clock w = now_ts # rest"
    by (subst (asm) worker_loop.simps) (auto split: list.splits)
  show ?case
  proof (cases "timespec_older now_ts end_ts \<noteq> 0")
    case True
    with "1.prems" c have "ss = [] @ [now_ts]" "w' = w\<lparr>clock := rest\<rparr>"
      by (simp_all add: worker_loop_stop)
    with True c show ?thesis by (intro exI [of _ "[]"] exI [of _ now_ts]) simp
  next
    case False
    with "1.prems" c obtain w1 ss1
      where d: "do_workload wd (w\<lparr>clock := rest\<rparr>) = Inr w1"
        and l: "worker_loop wd end_ts w1 = Inr (ss1, w')"
        and s: "ss = now_ts # ss1"
      by (subst (asm) worker_loop.simps) (auto split: sum.splits)
    from "1.IH" [OF c False d l] obtain before s
      where b: "ss1 = before @ [s]" "\<forall>b \<in> set before. timespec_older b end_ts = 0"
        "timespec_older s end_ts \<noteq> 0" "run_iterations wd (length before) w1 = Inr (ss1, w')"
      by blast
    from b s False c d show ?thesis
      by (intro exI [of _ "now_ts # before"] exI [of _ s]) simp
  qed
qed

lemma worker_loop_complete:
  "run_iterations wd (length before) w = Inr (before @ [s], w') \<Longrightarrow>
   \<forall>b \<in> set before. timespec_older b end_ts = 0 \<Longrightarrow>
   timespec_older s end_ts \<noteq> 0 \<Longrightarrow>
   worker_loop wd end_ts w = Inr (before @ [s], w')"
proof (induction before arbitrary: w)
  case Nil
  then obtain rest where "clock w = s # rest" "w' = w\<lparr>clock := rest\<rparr>"
    by (auto split: list.splits)
  with Nil.prems(3) show ?case by (simp add: worker_loop_stop)
next
  case (Cons b bs)
  from Cons.prems(1) obtain rest w1
    where c: "clock w = b # rest"
      and d: "do_workload wd (w\<lparr>clock := rest\<rparr>) = Inr w1"
      and r: "run_iterations wd (length bs) w1 = Inr (bs @ [s], w')"
    by (auto split: list.splits sum.splits)
  from Cons.prems(2) have b0: "timespec_older b end_ts = 0" and bs0: "\<forall>x \<in> set bs. timespec_older x end_ts = 0"
    by simp_all
  from Cons.IH [OF r bs0 Cons.prems(3)] have "worker_loop wd end_ts w1 = Inr (bs @ [s], w')" .
  with c b0 d show ?case by (simp add: worker_loop_step)
qed

text \<open>
  Claim C9, as the code has it. The deadline of a worker is its own first sample of the clock
  after \<open>sync_start\<close>, with the test duration added to the seconds and the nanoseconds
  unchanged; \<open>start_ts\<close>, the instant \<open>main\<close> records at the broadcast, is not read. The
  worker returns exactly when its driver loop meets a sample at or after that deadline:
  it returns the samples \<open>ss\<close> and the world \<open>w'\<close> if and only if \<open>ss\<close> is some samples before
  the deadline followed by one sample at or after it, and as many iterations as there are
  samples before the deadline, each invoking the worker model once, read these samples and
  lead to \<open>w'\<close>. So the loop stops at the first of its samples at or after the deadline, never
  earlier and never later.
\<close>

theorem worker_deadline_and_loop:
  "tv_sec (worker_end_ts td t) = tv_sec t + ucast td
   \<and> tv_nsec (worker_end_ts td t) = tv_nsec t
   \<and> (worker td tid wd w = Inr (wd1, ss, w') \<longleftrightarrow>
        wd1 = wd\<lparr>pid := tid\<rparr>
        \<and> (\<exists>t0 rest before s.
              clock w = t0 # rest
            \<and> ss = before @ [s]
            \<and> (\<forall>b \<in> set before. timespec_older b (worker_end_ts td t0) = 0)
            \<and> timespec_older s (worker_end_ts td t0) \<noteq> 0
            \<and> run_iterations wd1 (length before) (emit [Sync_start] (w\<lparr>clock := rest\<rparr>))
                = Inr (ss, w')))"
proof (intro conjI)
  show "tv_sec (worker_end_ts td t) = tv_sec t + ucast td" by (simp add: worker_end_ts_def)
  show "tv_nsec (worker_end_ts td t) = tv_nsec t" by (simp add: worker_end_ts_def)
  have e: "(emit [Sync_start] w)\<lparr>clock := rest\<rparr> = emit [Sync_start] (w\<lparr>clock := rest\<rparr>)" for rest
    by (cases w) (simp add: emit_def)
  have u: "worker td tid wd w = Inr (wd1, ss, w') \<longleftrightarrow>
      wd1 = wd\<lparr>pid := tid\<rparr> \<and>
      worker_loop wd1 (worker_end_ts td t0) (emit [Sync_start] (w\<lparr>clock := rest\<rparr>)) = Inr (ss, w')"
    if "clock w = t0 # rest" for t0 rest
  proof -
    have "clock (emit [Sync_start] w) = t0 # rest" using that by (simp add: emit_def)
    then show ?thesis
      by (auto simp add: worker_def Let_def e split: sum.splits)
  qed
  show "worker td tid wd w = Inr (wd1, ss, w') \<longleftrightarrow>
        wd1 = wd\<lparr>pid := tid\<rparr>
        \<and> (\<exists>t0 rest before s.
              clock w = t0 # rest
            \<and> ss = before @ [s]
            \<and> (\<forall>b \<in> set before. timespec_older b (worker_end_ts td t0) = 0)
            \<and> timespec_older s (worker_end_ts td t0) \<noteq> 0
            \<and> run_iterations wd1 (length before) (emit [Sync_start] (w\<lparr>clock := rest\<rparr>))
                = Inr (ss, w'))"
  proof (cases "clock w")
    case Nil
    then show ?thesis by (simp add: worker_def emit_def)
  next
    case (Cons t0 rest)
    show ?thesis
    proof
      assume "worker td tid wd w = Inr (wd1, ss, w')"
      with u [OF Cons] have w1: "wd1 = wd\<lparr>pid := tid\<rparr>"
        and l: "worker_loop wd1 (worker_end_ts td t0) (emit [Sync_start] (w\<lparr>clock := rest\<rparr>)) = Inr (ss, w')"
        by blast+
      from worker_loop_samples [OF l] Cons w1
      show "wd1 = wd\<lparr>pid := tid\<rparr>
        \<and> (\<exists>t0 rest before s.
              clock w = t0 # rest
            \<and> ss = before @ [s]
            \<and> (\<forall>b \<in> set before. timespec_older b (worker_end_ts td t0) = 0)
            \<and> timespec_older s (worker_end_ts td t0) \<noteq> 0
            \<and> run_iterations wd1 (length before) (emit [Sync_start] (w\<lparr>clock := rest\<rparr>))
                = Inr (ss, w'))"
        by blast
    next
      assume a: "wd1 = wd\<lparr>pid := tid\<rparr>
        \<and> (\<exists>t0 rest before s.
              clock w = t0 # rest
            \<and> ss = before @ [s]
            \<and> (\<forall>b \<in> set before. timespec_older b (worker_end_ts td t0) = 0)
            \<and> timespec_older s (worker_end_ts td t0) \<noteq> 0
            \<and> run_iterations wd1 (length before) (emit [Sync_start] (w\<lparr>clock := rest\<rparr>))
                = Inr (ss, w'))"
      then obtain before s where
        h: "ss = before @ [s]"
          "\<forall>b \<in> set before. timespec_older b (worker_end_ts td t0) = 0"
          "timespec_older s (worker_end_ts td t0) \<noteq> 0"
          "run_iterations wd1 (length before) (emit [Sync_start] (w\<lparr>clock := rest\<rparr>)) = Inr (before @ [s], w')"
        using Cons by auto
      from worker_loop_complete [OF h(4) h(2) h(3)] a h(1) u [OF Cons]
      show "worker td tid wd w = Inr (wd1, ss, w')" by simp
    qed
  qed
qed

theorem worker_deadline_and_loop_witness:
  "worker 5 77 \<lparr>wid = 1, pid = 0, kind = WORKER_BATCH, params = Unset\<rparr>
      \<lparr>start_ts = \<lparr>tv_sec = 100, tv_nsec = 0\<rparr>,
       clock = [\<lparr>tv_sec = 100, tv_nsec = 250000\<rparr>, \<lparr>tv_sec = 105, tv_nsec = 100000\<rparr>,
                \<lparr>tv_sec = 105, tv_nsec = 300000\<rparr>, \<lparr>tv_sec = 105, tv_nsec = 400000\<rparr>],
       rnd = [], trace = []\<rparr>
    = Inr (\<lparr>wid = 1, pid = 77, kind = WORKER_BATCH, params = Unset\<rparr>,
          [\<lparr>tv_sec = 105, tv_nsec = 100000\<rparr>, \<lparr>tv_sec = 105, tv_nsec = 300000\<rparr>],
          \<lparr>start_ts = \<lparr>tv_sec = 100, tv_nsec = 0\<rparr>, clock = [\<lparr>tv_sec = 105, tv_nsec = 400000\<rparr>],
            rnd = [], trace = [Sync_start, Busy_loop]\<rparr>)
   \<and> worker_end_ts 5 \<lparr>tv_sec = 100, tv_nsec = 250000\<rparr> = \<lparr>tv_sec = 105, tv_nsec = 250000\<rparr>
   \<and> timespec_older \<lparr>tv_sec = 105, tv_nsec = 100000\<rparr> (worker_end_ts 5 \<lparr>tv_sec = 100, tv_nsec = 250000\<rparr>) = 0
   \<and> timespec_older \<lparr>tv_sec = 105, tv_nsec = 300000\<rparr> (worker_end_ts 5 \<lparr>tv_sec = 100, tv_nsec = 250000\<rparr>) \<noteq> 0
   \<and> run_iterations \<lparr>wid = 1, pid = 77, kind = WORKER_BATCH, params = Unset\<rparr> 1
        \<lparr>start_ts = \<lparr>tv_sec = 100, tv_nsec = 0\<rparr>,
         clock = [\<lparr>tv_sec = 105, tv_nsec = 100000\<rparr>,
                  \<lparr>tv_sec = 105, tv_nsec = 300000\<rparr>, \<lparr>tv_sec = 105, tv_nsec = 400000\<rparr>],
         rnd = [], trace = [Sync_start]\<rparr>
       = Inr ([\<lparr>tv_sec = 105, tv_nsec = 100000\<rparr>, \<lparr>tv_sec = 105, tv_nsec = 300000\<rparr>],
              \<lparr>start_ts = \<lparr>tv_sec = 100, tv_nsec = 0\<rparr>, clock = [\<lparr>tv_sec = 105, tv_nsec = 400000\<rparr>],
                rnd = [], trace = [Sync_start, Busy_loop]\<rparr>)"
proof -
  let ?wd = "\<lparr>wid = 1, pid = 0, kind = WORKER_BATCH, params = Unset\<rparr>"
  let ?wd1 = "\<lparr>wid = 1, pid = 77, kind = WORKER_BATCH, params = Unset\<rparr>"
  let ?t0 = "\<lparr>tv_sec = 100, tv_nsec = 250000\<rparr>"
  let ?b = "\<lparr>tv_sec = 105, tv_nsec = 100000\<rparr>"
  let ?s = "\<lparr>tv_sec = 105, tv_nsec = 300000\<rparr>"
  let ?rest = "[?b, ?s, \<lparr>tv_sec = 105, tv_nsec = 400000\<rparr>]"
  let ?w = "\<lparr>start_ts = \<lparr>tv_sec = 100, tv_nsec = 0\<rparr>, clock = ?t0 # ?rest, rnd = [], trace = []\<rparr>"
  let ?w1 = "\<lparr>start_ts = \<lparr>tv_sec = 100, tv_nsec = 0\<rparr>, clock = ?rest, rnd = [], trace = [Sync_start]\<rparr>"
  let ?w' = "\<lparr>start_ts = \<lparr>tv_sec = 100, tv_nsec = 0\<rparr>, clock = [\<lparr>tv_sec = 105, tv_nsec = 400000\<rparr>],
            rnd = [], trace = [Sync_start, Busy_loop]\<rparr>"
  have d: "worker_end_ts 5 ?t0 = \<lparr>tv_sec = 105, tv_nsec = 250000\<rparr>"
    by (simp add: worker_end_ts_def)
  have o1: "timespec_older ?b (worker_end_ts 5 ?t0) = 0"
    and o2: "timespec_older ?s (worker_end_ts 5 ?t0) \<noteq> 0"
    unfolding d by (simp_all add: timespec_older_def)
  have ri: "run_iterations ?wd1 1 ?w1 = Inr ([?b, ?s], ?w')" by code_simp
  have e: "emit [Sync_start] (?w\<lparr>clock := ?rest\<rparr>) = ?w1" by (simp add: emit_def)
  have rhs: "\<exists>t0 rest before s.
              clock ?w = t0 # rest
            \<and> [?b, ?s] = before @ [s]
            \<and> (\<forall>b \<in> set before. timespec_older b (worker_end_ts 5 t0) = 0)
            \<and> timespec_older s (worker_end_ts 5 t0) \<noteq> 0
            \<and> run_iterations ?wd1 (length before) (emit [Sync_start] (?w\<lparr>clock := rest\<rparr>))
                = Inr ([?b, ?s], ?w')"
    apply (rule exI [of _ ?t0], rule exI [of _ ?rest], rule exI [of _ "[?b]"], rule exI [of _ ?s])
    using o1 o2 ri by (simp only: e) simp
  have "worker 5 77 ?wd ?w = Inr (?wd1, [?b, ?s], ?w')"
    using worker_deadline_and_loop [of 5 ?t0 77 ?wd ?w ?wd1 "[?b, ?s]" ?w'] rhs by simp
  then show ?thesis using d o1 o2 ri by simp
qed

text \<open>
  The driver loop of a batch worker returns as soon as the clock shows a sample at or after
  the deadline: its model reads no sample and cannot fail.
\<close>

lemma worker_loop_batch_returns:
  assumes "kind wd = WORKER_BATCH" and "\<exists>s \<in> set (clock w). timespec_older s end_ts \<noteq> 0"
  shows "\<exists>ss w'. worker_loop wd end_ts w = Inr (ss, w')"
  using assms(2)
proof (induction "clock w" arbitrary: w)
  case Nil
  then show ?case by simp
next
  case (Cons now_ts rest)
  from Cons.hyps(2) have c: "clock w = now_ts # rest" by simp
  show ?case
  proof (cases "timespec_older now_ts end_ts \<noteq> 0")
    case True
    with c show ?thesis by (simp add: worker_loop_stop)
  next
    case False
    let ?w1 = "emit [Busy_loop] (w\<lparr>clock := rest\<rparr>)"
    have d: "do_workload wd (w\<lparr>clock := rest\<rparr>) = Inr ?w1"
      using assms(1) by (simp add: do_workload_def worker_batch_def)
    have "rest = clock ?w1" by (simp add: emit_def)
    moreover have "\<exists>s \<in> set (clock ?w1). timespec_older s end_ts \<noteq> 0"
      using Cons.prems c False by (auto simp add: emit_def)
    ultimately obtain ss w' where "worker_loop wd end_ts ?w1 = Inr (ss, w')"
      using Cons.hyps(1) by blast
    with c False d show ?thesis
      by (subst worker_loop.simps) simp
  qed
qed

text \<open>
  A worker released at \<open>start_ts = 100 s\<close> that reads the clock 250 microseconds later runs
  until 105.000250 s: at its sample 105.000100 s, which is after \<open>start_ts\<close> plus the
  duration of 5 s, it does not stop but invokes its model once more.
\<close>

theorem worker_deadline_not_shared_counterexample:
  "worker 5 77 \<lparr>wid = 1, pid = 0, kind = WORKER_BATCH, params = Unset\<rparr>
      \<lparr>start_ts = \<lparr>tv_sec = 100, tv_nsec = 0\<rparr>,
       clock = [\<lparr>tv_sec = 100, tv_nsec = 250000\<rparr>, \<lparr>tv_sec = 105, tv_nsec = 100000\<rparr>,
                \<lparr>tv_sec = 105, tv_nsec = 300000\<rparr>, \<lparr>tv_sec = 105, tv_nsec = 400000\<rparr>],
       rnd = [], trace = []\<rparr>
    = Inr (\<lparr>wid = 1, pid = 77, kind = WORKER_BATCH, params = Unset\<rparr>,
          [\<lparr>tv_sec = 105, tv_nsec = 100000\<rparr>, \<lparr>tv_sec = 105, tv_nsec = 300000\<rparr>],
          \<lparr>start_ts = \<lparr>tv_sec = 100, tv_nsec = 0\<rparr>, clock = [\<lparr>tv_sec = 105, tv_nsec = 400000\<rparr>],
            rnd = [], trace = [Sync_start, Busy_loop]\<rparr>)
   \<and> worker_end_ts 5 \<lparr>tv_sec = 100, tv_nsec = 0\<rparr> = \<lparr>tv_sec = 105, tv_nsec = 0\<rparr>
   \<and> timespec_older \<lparr>tv_sec = 105, tv_nsec = 100000\<rparr> \<lparr>tv_sec = 105, tv_nsec = 0\<rparr> = 1"
  by code_simp

end
